theory Spec2Isabelle
  imports Main "HOL-Library.Multiset"
begin

section \<open>Strings\<close>

text \<open>
  Python strings are modelled as \<open>string\<close> (lists of 8-bit characters). \<open>lower\<close> is
  \<open>str.lower()\<close> on ASCII text: the letters A to Z are mapped to a to z, every other
  character is left alone. Case mapping of characters outside ASCII is not modelled.
\<close>

definition lower_char :: "char \<Rightarrow> char" where
  "lower_char c =
     (case map_of (zip ''ABCDEFGHIJKLMNOPQRSTUVWXYZ'' ''abcdefghijklmnopqrstuvwxyz'') c of
        Some d \<Rightarrow> d
      | None \<Rightarrow> c)"

definition lower :: "string \<Rightarrow> string" where
  "lower s = map lower_char s"

text \<open>\<open>str_in sub s\<close> is Python's \<open>sub in s\<close> on strings: \<open>sub\<close> occurs in \<open>s\<close> as a
  contiguous block.\<close>

fun str_in :: "string \<Rightarrow> string \<Rightarrow> bool" where
  "str_in sub [] = (sub = [])"
| "str_in sub (c # cs) = (take (length sub) (c # cs) = sub \<or> str_in sub cs)"

text \<open>\<open>str_nat n\<close> is \<open>str(n)\<close> for a non-negative integer, as the f-string of
  \<open>LectureVar.__init__\<close> formats the session index.\<close>

definition digit_char :: "nat \<Rightarrow> char" where
  "digit_char n = ''0123456789'' ! n"

function str_nat :: "nat \<Rightarrow> string" where
  "str_nat n = (if n < 10 then [digit_char n] else str_nat (n div 10) @ [digit_char (n mod 10)])"
  by pat_completeness auto
termination
  by (relation "measure (\<lambda>n. n)") auto

declare str_nat.simps [simp del]

section \<open>Reference data\<close>

text \<open>
  The tables \<open>preprocess\<close> hands to the solver. \<open>courses\<close> and \<open>curriculum\<close> are only
  looked up, so they are maps; \<open>instructors\<close> and \<open>rooms\<close> are iterated in insertion
  order, so they are association lists (the items of the Python dict, in order);
  \<open>timeslots\<close> and \<open>sections\<close> are Python lists. Integers are Python's unbounded ints.
\<close>

record course_info =
  cname :: string
  ctype :: string

record instr_info =
  iname :: string
  quals :: "string set"

record room_info =
  rtype :: string
  capacity :: int

record ts_info =
  day :: string
  start :: string
  finish :: string

text \<open>A row of \<open>sections\<close>: the dict with keys \<open>section_id\<close>, \<open>group\<close>, \<open>year\<close> and
  \<open>students\<close>.\<close>

record sec =
  section_id :: string
  sec_group :: string
  sec_year :: int
  sec_students :: int

type_synonym courses = "string \<rightharpoonup> course_info"
type_synonym instructors = "(string \<times> instr_info) list"
type_synonym rooms = "(string \<times> room_info) list"
type_synonym curriculum = "int \<rightharpoonup> string list"

section \<open>compatible\_room\<close>

definition compatible_room :: "string \<Rightarrow> string \<Rightarrow> bool" where
  "compatible_room course_type room_type =
     (let c = lower course_type; r = lower room_type in
      if c = [] then True
      else if c = r then True
      else if str_in ''lec'' c \<and> str_in ''lec'' r then True
      else if str_in ''lab'' c \<and> str_in ''lab'' r then True
      else if str_in ''project'' c \<and> str_in ''project'' r then True
      else if str_in ''lec'' r then True
      else False)"

section \<open>LectureVar and dicts keyed by it\<close>

text \<open>
  The attributes of class \<open>LectureVar\<close>; the attribute \<open>section\<close> is the field \<open>sect\<close>.
  The attribute \<open>name\<close> is computed once in \<open>__init__\<close> from the other attributes and
  never assigned again, so it is the function \<open>name\<close>.
\<close>

record LectureVar =
  course :: string
  sect :: string
  year :: int
  idx :: nat
  students :: int

definition name :: "LectureVar \<Rightarrow> string" where
  "name v = course v @ ''_'' @ sect v @ ''_L'' @ str_nat (idx v)"

text \<open>
  \<open>LectureVar.__hash__\<close> and \<open>__eq__\<close> compare the name only. A dict keyed by
  \<open>LectureVar\<close> is therefore the list of its items in insertion order, searched by name:
  \<open>dict_get\<close> is \<open>d.get(v)\<close>, \<open>dict_get_or d v x\<close> is \<open>d.get(v, x)\<close>, and \<open>dict_set\<close> is
  \<open>d[v] = x\<close>, which keeps the key object and the position of an item that is already
  there and appends a new item otherwise.
\<close>

type_synonym 'a lvdict = "(LectureVar \<times> 'a) list"

fun dict_get :: "'a lvdict \<Rightarrow> LectureVar \<Rightarrow> 'a option" where
  "dict_get [] v = None"
| "dict_get ((k, x) # d) v = (if name k = name v then Some x else dict_get d v)"

definition dict_get_or :: "'a lvdict \<Rightarrow> LectureVar \<Rightarrow> 'a \<Rightarrow> 'a" where
  "dict_get_or d v dflt = (case dict_get d v of None \<Rightarrow> dflt | Some x \<Rightarrow> x)"

fun dict_set :: "'a lvdict \<Rightarrow> LectureVar \<Rightarrow> 'a \<Rightarrow> 'a lvdict" where
  "dict_set [] v x = [(v, x)]"
| "dict_set ((k, y) # d) v x =
     (if name k = name v then (k, x) # d else (k, y) # dict_set d v x)"

section \<open>build\_vars\_domains\<close>

text \<open>A candidate is the tuple \<open>(t, r, instr, qual)\<close>.\<close>

type_synonym cand = "string \<times> string \<times> string \<times> bool"

definition c_t :: "cand \<Rightarrow> string" where "c_t d = fst d"
definition c_r :: "cand \<Rightarrow> string" where "c_r d = fst (snd d)"
definition c_i :: "cand \<Rightarrow> string" where "c_i d = fst (snd (snd d))"
definition c_q :: "cand \<Rightarrow> bool" where "c_q d = snd (snd (snd d))"

text \<open>
  \<open>is_qual instructors instr cid\<close> is \<open>cid in instructors[instr]["quals"]\<close>. The loop
  takes \<open>instr\<close> from \<open>instructors.keys()\<close>, so the lookup finds it and the \<open>None\<close>
  branch is never taken (lemma \<open>is_qual_key\<close> below).
\<close>

definition is_qual :: "instructors \<Rightarrow> string \<Rightarrow> string \<Rightarrow> bool" where
  "is_qual instructors instr cid =
     (case map_of instructors instr of Some info \<Rightarrow> cid \<in> quals info | None \<Rightarrow> False)"

text \<open>The three nested loops that fill \<open>dom\<close> for one variable (lines 231 to 241).\<close>

definition dom_instrs :: "instructors \<Rightarrow> string \<Rightarrow> string \<Rightarrow> string \<Rightarrow> cand list" where
  "dom_instrs instructors cid t r =
     map (\<lambda>instr. (t, r, instr, is_qual instructors instr cid)) (map fst instructors)"

definition dom_rooms ::
  "instructors \<Rightarrow> rooms \<Rightarrow> string \<Rightarrow> string \<Rightarrow> int \<Rightarrow> string \<Rightarrow> cand list" where
  "dom_rooms instructors rooms cid ctp studs t =
     concat (map (\<lambda>(r, rinfo).
        if \<not> compatible_room ctp (rtype rinfo) then []
        else if capacity rinfo < studs then []
        else dom_instrs instructors cid t r) rooms)"

definition build_dom ::
  "instructors \<Rightarrow> rooms \<Rightarrow> string list \<Rightarrow> string \<Rightarrow> string \<Rightarrow> int \<Rightarrow> cand list" where
  "build_dom instructors rooms timeslots cid ctp studs =
     concat (map (dom_rooms instructors rooms cid ctp studs) timeslots)"

text \<open>\<open>courses.get(cid, {}).get("type", "")\<close>.\<close>

definition course_type :: "courses \<Rightarrow> string \<Rightarrow> string" where
  "course_type courses cid = (case courses cid of None \<Rightarrow> [] | Some c \<Rightarrow> ctype c)"

text \<open>The loop state is the pair \<open>(variables, domains)\<close>. One definition per loop, the
  innermost first: the body of \<open>for i in range(sessions)\<close>, the body of
  \<open>for cid in clist\<close>, the body of \<open>for sec in sections\<close>.\<close>

definition session_step ::
  "instructors \<Rightarrow> rooms \<Rightarrow> string list \<Rightarrow> string \<Rightarrow> string \<Rightarrow> string \<Rightarrow> int \<Rightarrow> int \<Rightarrow>
   LectureVar list \<times> cand list lvdict \<Rightarrow> nat \<Rightarrow> LectureVar list \<times> cand list lvdict" where
  "session_step instructors rooms timeslots cid ctp s_id yr studs st i =
     (let v = \<lparr>course = cid, sect = s_id, year = yr, idx = i, students = studs\<rparr>;
          dom = build_dom instructors rooms timeslots cid ctp studs
      in (fst st @ [v], dict_set (snd st) v dom))"

definition course_step ::
  "courses \<Rightarrow> instructors \<Rightarrow> rooms \<Rightarrow> string list \<Rightarrow> string \<Rightarrow> int \<Rightarrow> int \<Rightarrow>
   LectureVar list \<times> cand list lvdict \<Rightarrow> string \<Rightarrow> LectureVar list \<times> cand list lvdict" where
  "course_step courses instructors rooms timeslots s_id yr studs st cid =
     (let ctp = course_type courses cid;
          sessions = (if str_in ''lec'' ctp then 2 else 1)
      in foldl (session_step instructors rooms timeslots cid ctp s_id yr studs) st [0..<sessions])"

definition section_step ::
  "courses \<Rightarrow> instructors \<Rightarrow> rooms \<Rightarrow> string list \<Rightarrow> curriculum \<Rightarrow>
   LectureVar list \<times> cand list lvdict \<Rightarrow> sec \<Rightarrow> LectureVar list \<times> cand list lvdict" where
  "section_step courses instructors rooms timeslots curriculum st s =
     (let yr = sec_year s;
          studs = sec_students s;
          s_id = section_id s;
          clist = (case curriculum yr of None \<Rightarrow> [] | Some l \<Rightarrow> l)
      in foldl (course_step courses instructors rooms timeslots s_id yr studs) st clist)"

definition build_vars_domains ::
  "courses \<Rightarrow> instructors \<Rightarrow> rooms \<Rightarrow> string list \<Rightarrow> sec list \<Rightarrow> curriculum \<Rightarrow>
   LectureVar list \<times> cand list lvdict" where
  "build_vars_domains courses instructors rooms timeslots sections curriculum =
     foldl (section_step courses instructors rooms timeslots curriculum) ([], []) sections"

section \<open>greedy\_assign\<close>

type_synonym occ = "(string \<times> string) set"

text \<open>The first loop over \<open>qualified + other\<close>: \<open>continue\<close> on an occupied pair, otherwise
  \<open>chosen = option; break\<close>. \<open>None\<close> is Python's \<open>None\<close>.\<close>

fun first_free :: "occ \<Rightarrow> occ \<Rightarrow> cand list \<Rightarrow> cand option" where
  "first_free used_room_ts used_instr_ts [] = None"
| "first_free used_room_ts used_instr_ts ((t, r, instr, qual) # rest) =
     (if (t, r) \<in> used_room_ts \<or> (t, instr) \<in> used_instr_ts
      then first_free used_room_ts used_instr_ts rest
      else Some (t, r, instr, qual))"

text \<open>The conflict score of one option in the fallback loop: \<open>conf = 0\<close>, then \<open>+= 1\<close>
  for an occupied room pair and \<open>+= 1\<close> for an occupied instructor pair.\<close>

definition conf_of :: "occ \<Rightarrow> occ \<Rightarrow> cand \<Rightarrow> int" where
  "conf_of used_room_ts used_instr_ts d =
     (if (c_t d, c_r d) \<in> used_room_ts then 1 else 0) +
     (if (c_t d, c_i d) \<in> used_instr_ts then 1 else 0)"

text \<open>The fallback loop over \<open>dom\<close>, with the loop state \<open>(best, best_conf)\<close>. The source
  starts \<open>best_conf\<close> at the float \<open>1e9\<close>; it is only compared with the integers 0, 1, 2.\<close>

fun fallback_scan :: "occ \<Rightarrow> occ \<Rightarrow> cand list \<Rightarrow> cand option \<times> int \<Rightarrow> cand option \<times> int" where
  "fallback_scan used_room_ts used_instr_ts [] acc = acc"
| "fallback_scan used_room_ts used_instr_ts (option # rest) (best, best_conf) =
     (let conf = conf_of used_room_ts used_instr_ts option
      in if conf < best_conf
         then fallback_scan used_room_ts used_instr_ts rest (Some option, conf)
         else fallback_scan used_room_ts used_instr_ts rest (best, best_conf))"

text \<open>
  The tuple of the last resort (lines 280 to 286); \<open>dm\<close> is the source's \<open>dom\<close>. For an
  empty \<open>dom\<close> it is \<open>("ts0", "room0", "instr0", False)\<close>. For a non-empty \<open>dom\<close> the
  source takes the fields of the first option (\<open>domains and next(iter(dom))[k]\<close>, where
  \<open>domains\<close> is non-empty because \<open>dom\<close> came out of it); the loop body never gets there,
  since the fallback loop finds a best option in every non-empty \<open>dom\<close>.
\<close>

definition synthetic :: "cand list \<Rightarrow> cand" where
  "synthetic dm =
     (case dm of
        [] \<Rightarrow> (''ts0'', ''room0'', ''instr0'', False)
      | d # _ \<Rightarrow> (c_t d, c_r d, c_i d, False))"

text \<open>
  \<open>pick_chosen\<close> is the part of the loop body that settles \<open>chosen\<close> and the violation
  counter (lines 256 to 286). A tuple of four fields is truthy, so \<open>if not chosen\<close> and
  \<open>if best\<close> test for \<open>None\<close>.
\<close>

definition pick_chosen :: "occ \<Rightarrow> occ \<Rightarrow> cand list \<Rightarrow> nat \<Rightarrow> cand \<times> nat" where
  "pick_chosen used_room_ts used_instr_ts dm violations =
     (let qualified = filter (\<lambda>d. c_q d) dm;
          other = filter (\<lambda>d. \<not> c_q d) dm;
          chosen = first_free used_room_ts used_instr_ts (qualified @ other);
          cv = (case chosen of
                  Some c \<Rightarrow> (Some c, violations)
                | None \<Rightarrow>
                    (case fst (fallback_scan used_room_ts used_instr_ts dm (None, 1000000000)) of
                       Some best \<Rightarrow> (Some best, violations + 1)
                     | None \<Rightarrow> (None, violations)))
      in case fst cv of
           Some c \<Rightarrow> (c, snd cv)
         | None \<Rightarrow> (synthetic dm, snd cv + 1))"

record greedy_state =
  assigned :: "cand lvdict"
  used_room_ts :: occ
  used_instr_ts :: occ
  violations :: nat

text \<open>The body of \<open>for v in sorted(...)\<close>.\<close>

definition greedy_step :: "cand list lvdict \<Rightarrow> greedy_state \<Rightarrow> LectureVar \<Rightarrow> greedy_state" where
  "greedy_step domains st v =
     (let dom = dict_get_or domains v [];
          cv = pick_chosen (used_room_ts st) (used_instr_ts st) dom (violations st);
          chosen = fst cv
      in \<lparr>assigned = dict_set (assigned st) v chosen,
          used_room_ts = insert (c_t chosen, c_r chosen) (used_room_ts st),
          used_instr_ts = insert (c_t chosen, c_i chosen) (used_instr_ts st),
          violations = snd cv\<rparr>)"

text \<open>\<open>sorted(variables, key=lambda x: -x.students)\<close>: Python's sort is stable and
  ascending in the key, as \<open>sort_key\<close> is.\<close>

definition greedy_order :: "LectureVar list \<Rightarrow> LectureVar list" where
  "greedy_order variables = sort_key (\<lambda>x. - students x) variables"

definition greedy_init :: greedy_state where
  "greedy_init = \<lparr>assigned = [], used_room_ts = {}, used_instr_ts = {}, violations = 0\<rparr>"

definition greedy_run :: "LectureVar list \<Rightarrow> cand list lvdict \<Rightarrow> greedy_state" where
  "greedy_run variables domains =
     foldl (greedy_step domains) greedy_init (greedy_order variables)"

definition greedy_assign :: "LectureVar list \<Rightarrow> cand list lvdict \<Rightarrow> cand lvdict \<times> nat" where
  "greedy_assign variables domains =
     (let st = greedy_run variables domains in (assigned st, violations st))"

section \<open>improve\_assignments\<close>

text \<open>The exceptions of the model: \<open>KeyError\<close> of a dict subscript and \<open>IndexError\<close> of
  \<open>random.choice\<close> on an empty sequence.\<close>

datatype py_error = KeyError | IndexError

record improve_state =
  im_assigned :: "cand lvdict"
  room_ts :: occ
  instr_ts :: occ
  improved :: nat
  it :: int

text \<open>
  The conflict test of lines 314 to 319 for the option \<open>opt\<close> against the current tuple
  \<open>cur\<close> of the variable: the flag starts \<open>False\<close> and is set by an occupied room pair
  that is not the variable's own, then by an occupied instructor pair that is not its own.
\<close>

definition swap_conflict :: "occ \<Rightarrow> occ \<Rightarrow> cand \<Rightarrow> cand \<Rightarrow> bool" where
  "swap_conflict rts its cur opt =
     (let conflict0 = False;
          conflict1 = (if (c_t opt, c_r opt) \<in> rts \<and>
                          \<not> (c_t opt = c_t cur \<and> c_r opt = c_r cur)
                       then True else conflict0)
      in if (c_t opt, c_i opt) \<in> its \<and> \<not> (c_t opt = c_t cur \<and> c_i opt = c_i cur)
         then True else conflict1)"

text \<open>
  The loop \<open>for opt in dom\<close> of the improvement pass. \<open>assigned[v]\<close> is read when a
  qualified option is reached and raises \<open>KeyError\<close> for a missing key.
\<close>

fun improve_scan :: "cand lvdict \<Rightarrow> LectureVar \<Rightarrow> occ \<Rightarrow> occ \<Rightarrow> cand list \<Rightarrow> py_error + cand option" where
  "improve_scan asg v rts its [] = Inr None"
| "improve_scan asg v rts its (opt # rest) =
     (if \<not> c_q opt then improve_scan asg v rts its rest
      else case dict_get asg v of
             None \<Rightarrow> Inl KeyError
           | Some cur \<Rightarrow>
               if \<not> swap_conflict rts its cur opt then Inr (Some opt)
               else improve_scan asg v rts its rest)"

text \<open>The body of the \<open>while\<close> loop after \<open>v = unqualified.pop()\<close>.\<close>

definition improve_body :: "cand list lvdict \<Rightarrow> improve_state \<Rightarrow> LectureVar \<Rightarrow> py_error + improve_state" where
  "improve_body domains st v =
     (let dom = dict_get_or domains v [] in
      case improve_scan (im_assigned st) v (room_ts st) (instr_ts st) dom of
        Inl e \<Rightarrow> Inl e
      | Inr None \<Rightarrow> Inr (st\<lparr>it := it st + 1\<rparr>)
      | Inr (Some found) \<Rightarrow>
          (case dict_get (im_assigned st) v of
             None \<Rightarrow> Inl KeyError
           | Some cur \<Rightarrow>
               Inr \<lparr>im_assigned = dict_set (im_assigned st) v found,
                    room_ts = insert (c_t found, c_r found) (room_ts st - {(c_t cur, c_r cur)}),
                    instr_ts = insert (c_t found, c_i found) (instr_ts st - {(c_t cur, c_i cur)}),
                    improved = improved st + 1,
                    it = it st + 1\<rparr>))"

text \<open>
  \<open>while unqualified and it < max_iters\<close>. \<open>pop()\<close> takes the last element, so the loop
  walks the list from its end: \<open>improve_loop\<close> receives the list reversed and takes its
  head.
\<close>

fun improve_loop :: "cand list lvdict \<Rightarrow> int \<Rightarrow> LectureVar list \<Rightarrow> improve_state \<Rightarrow> py_error + improve_state" where
  "improve_loop domains max_iters [] st = Inr st"
| "improve_loop domains max_iters (v # rest) st =
     (if it st < max_iters
      then (case improve_body domains st v of
              Inl e \<Rightarrow> Inl e
            | Inr st' \<Rightarrow> improve_loop domains max_iters rest st')
      else Inr st)"

definition unqualified_of :: "cand lvdict \<Rightarrow> LectureVar list" where
  "unqualified_of asg = map fst (filter (\<lambda>(v, val). \<not> c_q val) asg)"

text \<open>
  \<open>random.shuffle\<close> permutes the list in place; which permutation it picks is the
  parameter \<open>shuffle\<close>. The parameter \<open>instructors\<close> of the source is never read.
\<close>

definition is_shuffle :: "(LectureVar list \<Rightarrow> LectureVar list) \<Rightarrow> bool" where
  "is_shuffle shuffle = (\<forall>xs. mset (shuffle xs) = mset xs)"

definition improve_assignments ::
  "(LectureVar list \<Rightarrow> LectureVar list) \<Rightarrow> cand lvdict \<Rightarrow> cand list lvdict \<Rightarrow> instructors \<Rightarrow> int \<Rightarrow>
   py_error + cand lvdict \<times> nat" where
  "improve_assignments shuffle asg domains instructors max_iters =
     (let rts = set (map (\<lambda>(v, val). (c_t val, c_r val)) asg);
          its = set (map (\<lambda>(v, val). (c_t val, c_i val)) asg);
          unqualified = shuffle (unqualified_of asg)
      in case improve_loop domains max_iters (rev unqualified)
                \<lparr>im_assigned = asg, room_ts = rts, instr_ts = its, improved = 0, it = 0\<rparr> of
           Inl e \<Rightarrow> Inl e
         | Inr st \<Rightarrow> Inr (im_assigned st, improved st))"

section \<open>greedy\_assign of timetable.py\<close>

text \<open>
  The class \<open>LectureVar\<close> of \<open>timetable.py\<close> has the same attributes but defines neither
  \<open>__eq__\<close> nor \<open>__hash__\<close>, so a dict keyed by it compares keys by object identity. An
  object is the pair of its identity and its attributes; \<open>id_get\<close>, \<open>id_get_or\<close> and
  \<open>id_set\<close> are \<open>d.get(v)\<close>, \<open>d.get(v, x)\<close> and \<open>d[v] = x\<close> on such a dict.
\<close>

type_synonym lv_obj = "nat \<times> LectureVar"

type_synonym 'a iddict = "(lv_obj \<times> 'a) list"

fun id_get :: "'a iddict \<Rightarrow> lv_obj \<Rightarrow> 'a option" where
  "id_get [] v = None"
| "id_get ((k, x) # d) v = (if fst k = fst v then Some x else id_get d v)"

definition id_get_or :: "'a iddict \<Rightarrow> lv_obj \<Rightarrow> 'a \<Rightarrow> 'a" where
  "id_get_or d v dflt = (case id_get d v of None \<Rightarrow> dflt | Some x \<Rightarrow> x)"

fun id_set :: "'a iddict \<Rightarrow> lv_obj \<Rightarrow> 'a \<Rightarrow> 'a iddict" where
  "id_set [] v x = [(v, x)]"
| "id_set ((k, y) # d) v x =
     (if fst k = fst v then (k, x) # d else (k, y) # id_set d v x)"

text \<open>
  \<open>random.choice(seq)\<close> raises \<open>IndexError\<close> for an empty sequence and returns
  \<open>seq[i]\<close> for a random index \<open>i\<close> below \<open>len(seq)\<close> otherwise. The random source is the
  parameter \<open>rnd\<close>, the sequence of numbers drawn; the state counts the draws made so far.
\<close>

definition py_choice :: "nat \<Rightarrow> 'a list \<Rightarrow> py_error + 'a" where
  "py_choice r xs = (if xs = [] then Inl IndexError else Inr (xs ! (r mod length xs)))"

record tt_state =
  tt_assigned :: "cand iddict"
  tt_used_room_ts :: occ
  tt_used_instr_ts :: occ
  draws :: nat

text \<open>
  The part of the loop body that settles \<open>chosen\<close> (lines 174 to 190 of \<open>timetable.py\<close>):
  the first loop is the one of \<open>test.py\<close>; when it finds nothing, a non-empty \<open>dom\<close> gives
  \<open>random.choice(dom)\<close>, and an empty one a tuple of a random timeslot, a random room id
  and a random instructor id with the flag \<open>False\<close>.
\<close>

definition tt_pick_chosen ::
  "(nat \<Rightarrow> nat) \<Rightarrow> instructors \<Rightarrow> rooms \<Rightarrow> string list \<Rightarrow> occ \<Rightarrow> occ \<Rightarrow> cand list \<Rightarrow> nat \<Rightarrow>
   py_error + cand \<times> nat" where
  "tt_pick_chosen rnd instructors rooms timeslots ur ui dm k =
     (let qualified = filter (\<lambda>d. c_q d) dm;
          unqualified = filter (\<lambda>d. \<not> c_q d) dm
      in case first_free ur ui (qualified @ unqualified) of
           Some c \<Rightarrow> Inr (c, k)
         | None \<Rightarrow>
             if dm \<noteq> [] then
               (case py_choice (rnd k) dm of
                  Inl e \<Rightarrow> Inl e
                | Inr c \<Rightarrow> Inr (c, k + 1))
             else
               (case py_choice (rnd k) timeslots of
                  Inl e \<Rightarrow> Inl e
                | Inr t \<Rightarrow>
                    (case py_choice (rnd (k + 1)) (map fst rooms) of
                       Inl e \<Rightarrow> Inl e
                     | Inr r \<Rightarrow>
                         (case py_choice (rnd (k + 2)) (map fst instructors) of
                            Inl e \<Rightarrow> Inl e
                          | Inr instr \<Rightarrow> Inr ((t, r, instr, False), k + 3)))))"

text \<open>The body of \<open>for v in sorted(...)\<close> in \<open>timetable.py\<close>, and the loop; an exception
  ends the loop.\<close>

definition tt_greedy_step ::
  "(nat \<Rightarrow> nat) \<Rightarrow> cand list iddict \<Rightarrow> instructors \<Rightarrow> rooms \<Rightarrow> string list \<Rightarrow>
   tt_state \<Rightarrow> lv_obj \<Rightarrow> py_error + tt_state" where
  "tt_greedy_step rnd domains instructors rooms timeslots st v =
     (let dom = id_get_or domains v [] in
      case tt_pick_chosen rnd instructors rooms timeslots
             (tt_used_room_ts st) (tt_used_instr_ts st) dom (draws st) of
        Inl e \<Rightarrow> Inl e
      | Inr ck \<Rightarrow>
          Inr \<lparr>tt_assigned = id_set (tt_assigned st) v (fst ck),
               tt_used_room_ts = insert (c_t (fst ck), c_r (fst ck)) (tt_used_room_ts st),
               tt_used_instr_ts = insert (c_t (fst ck), c_i (fst ck)) (tt_used_instr_ts st),
               draws = snd ck\<rparr>)"

fun tt_loop ::
  "(nat \<Rightarrow> nat) \<Rightarrow> cand list iddict \<Rightarrow> instructors \<Rightarrow> rooms \<Rightarrow> string list \<Rightarrow>
   lv_obj list \<Rightarrow> tt_state \<Rightarrow> py_error + tt_state" where
  "tt_loop rnd domains instructors rooms timeslots [] st = Inr st"
| "tt_loop rnd domains instructors rooms timeslots (v # rest) st =
     (case tt_greedy_step rnd domains instructors rooms timeslots st v of
        Inl e \<Rightarrow> Inl e
      | Inr st' \<Rightarrow> tt_loop rnd domains instructors rooms timeslots rest st')"

definition tt_greedy_assign ::
  "(nat \<Rightarrow> nat) \<Rightarrow> lv_obj list \<Rightarrow> cand list iddict \<Rightarrow> instructors \<Rightarrow> rooms \<Rightarrow> string list \<Rightarrow>
   py_error + cand iddict" where
  "tt_greedy_assign rnd variables domains instructors rooms timeslots =
     (case tt_loop rnd domains instructors rooms timeslots
             (sort_key (\<lambda>x. - students (snd x)) variables)
             \<lparr>tt_assigned = [], tt_used_room_ts = {}, tt_used_instr_ts = {}, draws = 0\<rparr> of
        Inl e \<Rightarrow> Inl e
      | Inr st \<Rightarrow> Inr (tt_assigned st))"

section \<open>export\_results\<close>

text \<open>The list \<open>rows\<close> that \<open>export_results\<close> builds from the assignment, one dict per item
  of \<open>assigned\<close>; writing the files is outside the model.\<close>

record row =
  Variable :: string
  Year :: int
  Course :: string
  Section :: string
  TimeslotID :: string
  Day :: string
  Start :: string
  End :: string
  Room :: string
  InstructorID :: string
  InstructorName :: string
  InstructorQualified :: bool

definition export_row :: "(string \<rightharpoonup> ts_info) \<Rightarrow> instructors \<Rightarrow> LectureVar \<times> cand \<Rightarrow> row" where
  "export_row timeslot_info instructors e =
     (let v = fst e; val = snd e;
          info = (case timeslot_info (c_t val) of
                    None \<Rightarrow> \<lparr>day = [], start = [], finish = []\<rparr>
                  | Some x \<Rightarrow> x);
          instr_name = (case map_of instructors (c_i val) of
                          None \<Rightarrow> c_i val
                        | Some x \<Rightarrow> iname x)
      in \<lparr>Variable = name v, Year = year v, Course = course v, Section = sect v,
          TimeslotID = c_t val, Day = day info, Start = start info, End = finish info,
          Room = c_r val, InstructorID = c_i val, InstructorName = instr_name,
          InstructorQualified = c_q val\<rparr>)"

definition export_rows :: "cand lvdict \<Rightarrow> (string \<rightharpoonup> ts_info) \<Rightarrow> instructors \<Rightarrow> row list" where
  "export_rows asg timeslot_info instructors = map (export_row timeslot_info instructors) asg"

section \<open>The run\<close>

text \<open>
  The solver part of \<open>choose_and_run\<close> (lines 389 to 393): build, assign greedily,
  improve with the default budget of 5000 iterations, and hand the rows, the violation
  count of the greedy pass and the number of improvements to the report. An exception
  ends the run with that error.
\<close>

definition choose_and_run ::
  "(LectureVar list \<Rightarrow> LectureVar list) \<Rightarrow> courses \<Rightarrow> instructors \<Rightarrow> rooms \<Rightarrow> string list \<Rightarrow>
   (string \<rightharpoonup> ts_info) \<Rightarrow> sec list \<Rightarrow> curriculum \<Rightarrow> py_error + row list \<times> nat \<times> nat" where
  "choose_and_run shuffle courses instructors rooms timeslots timeslot_info sections curriculum =
     (let vd = build_vars_domains courses instructors rooms timeslots sections curriculum;
          variables = fst vd;
          domains = snd vd;
          av = greedy_assign variables domains;
          asg = fst av;
          violations = snd av
      in case improve_assignments shuffle asg domains instructors 5000 of
           Inl e \<Rightarrow> Inl e
         | Inr ai \<Rightarrow> Inr (export_rows (fst ai) timeslot_info instructors, violations, snd ai))"

section \<open>Auxiliary notions and example tables\<close>

text \<open>The test of line 261: the room pair or the instructor pair of an option is
  already occupied.\<close>

definition blocked :: "occ \<Rightarrow> occ \<Rightarrow> cand \<Rightarrow> bool" where
  "blocked ur ui d = ((c_t d, c_r d) \<in> ur \<or> (c_t d, c_i d) \<in> ui)"

text \<open>The variables one curriculum entry contributes for one section.\<close>

definition sessions_of :: "courses \<Rightarrow> sec \<Rightarrow> string \<Rightarrow> LectureVar list" where
  "sessions_of courses s cid =
     map (\<lambda>i. \<lparr>course = cid, sect = section_id s, year = sec_year s, idx = i,
                students = sec_students s\<rparr>)
         [0..<(if str_in ''lec'' (course_type courses cid) then 2 else 1)]"

text \<open>The names of the keys of a dict, in insertion order.\<close>

definition dict_keys :: "'a lvdict \<Rightarrow> string list" where
  "dict_keys d = map (\<lambda>e. name (fst e)) d"

text \<open>The two pairs a committed tuple occupies.\<close>

definition room_pair :: "cand \<Rightarrow> string \<times> string" where
  "room_pair c = (c_t c, c_r c)"

definition instr_pair :: "cand \<Rightarrow> string \<times> string" where
  "instr_pair c = (c_t c, c_i c)"

text \<open>\<open>apart\<close>: items under different names differ in both pairs. \<open>covered\<close>: the
  occupancy sets hold the pairs of every item.\<close>

definition apart :: "cand lvdict \<Rightarrow> bool" where
  "apart d = (\<forall>e1\<in>set d. \<forall>e2\<in>set d. name (fst e1) \<noteq> name (fst e2) \<longrightarrow>
      room_pair (snd e1) \<noteq> room_pair (snd e2) \<and> instr_pair (snd e1) \<noteq> instr_pair (snd e2))"

definition covered :: "cand lvdict \<Rightarrow> occ \<Rightarrow> occ \<Rightarrow> bool" where
  "covered d rts its = (\<forall>e\<in>set d. room_pair (snd e) \<in> rts \<and> instr_pair (snd e) \<in> its)"

text \<open>The number of sessions whose tuple carries \<open>qualified = True\<close>.\<close>

definition qualified_count :: "cand lvdict \<Rightarrow> nat" where
  "qualified_count d = length (filter (\<lambda>e. c_q (snd e)) d)"

text \<open>The number of pairs of items of an assignment that share a (timeslot, room) pair or
  a (timeslot, instructor) pair.\<close>

definition double_bookings :: "cand lvdict \<Rightarrow> nat" where
  "double_bookings d =
     length [(i, j). i \<leftarrow> [0..<length d], j \<leftarrow> [0..<length d], i < j,
               room_pair (snd (d ! i)) = room_pair (snd (d ! j)) \<or>
               instr_pair (snd (d ! i)) = instr_pair (snd (d ! j))]"

text \<open>Invariants of the two loops, and the relation between the states before and after
  some iterations of the improvement loop that touch only the names in \<open>ns\<close>.\<close>

definition greedy_inv :: "greedy_state \<Rightarrow> bool" where
  "greedy_inv st =
     (covered (assigned st) (used_room_ts st) (used_instr_ts st) \<and>
      distinct (dict_keys (assigned st)) \<and>
      (violations st = 0 \<longrightarrow> apart (assigned st)))"

definition improve_inv :: "improve_state \<Rightarrow> bool" where
  "improve_inv st =
     (distinct (dict_keys (im_assigned st)) \<and> apart (im_assigned st) \<and>
      covered (im_assigned st) (room_ts st) (instr_ts st))"

definition improve_rel :: "cand list lvdict \<Rightarrow> string set \<Rightarrow> improve_state \<Rightarrow> improve_state \<Rightarrow> bool" where
  "improve_rel domains ns st st' =
     (dict_keys (im_assigned st') = dict_keys (im_assigned st) \<and>
      qualified_count (im_assigned st) \<le> qualified_count (im_assigned st') \<and>
      (\<forall>w. name w \<notin> ns \<longrightarrow> dict_get (im_assigned st') w = dict_get (im_assigned st) w) \<and>
      (\<forall>w c'. dict_get (im_assigned st') w = Some c' \<longrightarrow>
          dict_get (im_assigned st) w = Some c' \<or>
          (c_q c' \<and> c' \<in> set (dict_get_or domains w []))) \<and>
      (improve_inv st \<longrightarrow> improve_inv st'))"

text \<open>The domain the loop body of \<open>build_vars_domains\<close> computes for a variable \<open>w\<close>, and
  the invariant of its loops: the domain stored under a variable's name is the one
  computed for some variable of that name.\<close>

definition dom_for :: "courses \<Rightarrow> instructors \<Rightarrow> rooms \<Rightarrow> string list \<Rightarrow> LectureVar \<Rightarrow> cand list" where
  "dom_for courses instructors rooms timeslots w =
     build_dom instructors rooms timeslots (course w) (course_type courses (course w)) (students w)"

definition stored_ok ::
  "courses \<Rightarrow> instructors \<Rightarrow> rooms \<Rightarrow> string list \<Rightarrow> LectureVar list \<times> cand list lvdict \<Rightarrow> bool" where
  "stored_ok courses instructors rooms timeslots st =
     (\<forall>v\<in>set (fst st). \<exists>w\<in>set (fst st). name w = name v \<and>
        dict_get (snd st) v = Some (dom_for courses instructors rooms timeslots w))"

text \<open>Every tuple of an assignment comes from the domain stored for its session, unless
  that domain is empty.\<close>

definition from_domain :: "cand list lvdict \<Rightarrow> cand lvdict \<Rightarrow> bool" where
  "from_domain domains asg =
     (\<forall>v c. dict_get asg v = Some c \<longrightarrow>
        c \<in> set (dict_get_or domains v []) \<or> dict_get_or domains v [] = [])"

text \<open>What the empty-domain branch of \<open>timetable.py\<close> may leave in the assignment: a tuple
  of a timeslot of the list, a room id and an instructor id of the tables, flagged
  unqualified.\<close>

definition tt_drawn :: "instructors \<Rightarrow> rooms \<Rightarrow> string list \<Rightarrow> cand option \<Rightarrow> bool" where
  "tt_drawn instructors rooms timeslots x =
     (\<exists>t r i. x = Some (t, r, i, False) \<and> t \<in> set timeslots \<and> r \<in> fst ` set rooms \<and>
        i \<in> fst ` set instructors)"

text \<open>A small timetable: one section of ten students, one lecture course \<open>C1\<close> with one
  qualified instructor, one lecture room.\<close>

definition ex_courses :: courses where
  "ex_courses = [''C1'' \<mapsto> \<lparr>cname = ''Algebra'', ctype = ''lecture''\<rparr>]"

definition ex_instructors :: instructors where
  "ex_instructors = [(''I1'', \<lparr>iname = ''Ann'', quals = {''C1''}\<rparr>)]"

definition ex_rooms :: rooms where
  "ex_rooms = [(''R1'', \<lparr>rtype = ''lecture'', capacity = 30\<rparr>)]"

definition ex_sections :: "sec list" where
  "ex_sections = [\<lparr>section_id = ''S1'', sec_group = ''1'', sec_year = 1, sec_students = 10\<rparr>]"

definition ex_curriculum :: curriculum where
  "ex_curriculum = [1 \<mapsto> [''C1'']]"

definition ex_v :: "nat \<Rightarrow> LectureVar" where
  "ex_v i = \<lparr>course = ''C1'', sect = ''S1'', year = 1, idx = i, students = 10\<rparr>"

definition ex_dom2 :: "cand list" where
  "ex_dom2 = [(''T1'', ''R1'', ''I1'', True), (''T2'', ''R1'', ''I1'', True)]"

definition ex_domains :: "cand list lvdict" where
  "ex_domains = [(ex_v 0, ex_dom2), (ex_v 1, ex_dom2)]"

text \<open>The same section with a course \<open>C9\<close> whose type cell is blank, and a lab room.\<close>

definition ex_lab_rooms :: rooms where
  "ex_lab_rooms = [(''R1'', \<lparr>rtype = ''lab'', capacity = 30\<rparr>)]"

definition ex_v9 :: LectureVar where
  "ex_v9 = \<lparr>course = ''C9'', sect = ''S1'', year = 1, idx = 0, students = 10\<rparr>"

text \<open>A lab room that is too small for the section.\<close>

definition ex_small_rooms :: rooms where
  "ex_small_rooms = [(''R1'', \<lparr>rtype = ''lab'', capacity = 5\<rparr>)]"

text \<open>The state of the greedy loop after the first session of \<open>C1\<close> has taken
  \<open>(T1, R1, I1)\<close>, and the domains when \<open>T1\<close> is the only timeslot.\<close>

definition ex_st1 :: greedy_state where
  "ex_st1 = \<lparr>assigned = [(ex_v 0, (''T1'', ''R1'', ''I1'', True))],
             used_room_ts = {(''T1'', ''R1'')}, used_instr_ts = {(''T1'', ''I1'')},
             violations = 0\<rparr>"

definition ex_domains1 :: "cand list lvdict" where
  "ex_domains1 = [(ex_v 0, [(''T1'', ''R1'', ''I1'', True)]),
                  (ex_v 1, [(''T1'', ''R1'', ''I1'', True)])]"

definition ex_asg :: "cand lvdict" where
  "ex_asg = [(ex_v 0, (''T1'', ''R1'', ''I1'', True)), (ex_v 1, (''T2'', ''R1'', ''I1'', True))]"

text \<open>Two lab courses \<open>CA\<close> and \<open>CB\<close> for the same section, one lab room, one timeslot and
  three instructors, of whom \<open>I1\<close> is qualified for \<open>CA\<close> and \<open>I3\<close> for \<open>CB\<close>.\<close>

definition ex2_courses :: courses where
  "ex2_courses = [''CA'' \<mapsto> \<lparr>cname = ''Optics'', ctype = ''lab''\<rparr>,
                  ''CB'' \<mapsto> \<lparr>cname = ''Circuits'', ctype = ''lab''\<rparr>]"

definition ex2_instructors :: instructors where
  "ex2_instructors = [(''I1'', \<lparr>iname = ''Ann'', quals = {''CA''}\<rparr>),
                      (''I2'', \<lparr>iname = ''Bob'', quals = {}\<rparr>),
                      (''I3'', \<lparr>iname = ''Cy'', quals = {''CB''}\<rparr>)]"

definition ex2_curriculum :: curriculum where
  "ex2_curriculum = [1 \<mapsto> [''CA'', ''CB'']]"

definition ex2_vA :: LectureVar where
  "ex2_vA = \<lparr>course = ''CA'', sect = ''S1'', year = 1, idx = 0, students = 10\<rparr>"

definition ex2_vB :: LectureVar where
  "ex2_vB = \<lparr>course = ''CB'', sect = ''S1'', year = 1, idx = 0, students = 10\<rparr>"

definition ex2_domains :: "cand list lvdict" where
  "ex2_domains =
     [(ex2_vA, [(''T1'', ''R1'', ''I1'', True), (''T1'', ''R1'', ''I2'', False),
                (''T1'', ''R1'', ''I3'', False)]),
      (ex2_vB, [(''T1'', ''R1'', ''I1'', False), (''T1'', ''R1'', ''I2'', False),
                (''T1'', ''R1'', ''I3'', True)])]"

text \<open>The state of the greedy loop on these tables after \<open>CA\<close> has taken
  \<open>(T1, R1, I1)\<close>.\<close>

definition ex2_st1 :: greedy_state where
  "ex2_st1 = \<lparr>assigned = [(ex2_vA, (''T1'', ''R1'', ''I1'', True))],
              used_room_ts = {(''T1'', ''R1'')}, used_instr_ts = {(''T1'', ''I1'')},
              violations = 0\<rparr>"

text \<open>An assignment of the two lab sessions without any double booking, both with the
  unqualified instructor \<open>I2\<close>, and domains in which \<open>I1\<close> is qualified for both.\<close>

definition ex3_asg :: "cand lvdict" where
  "ex3_asg = [(ex2_vA, (''T1'', ''R1'', ''I2'', False)), (ex2_vB, (''T2'', ''R1'', ''I2'', False))]"

definition ex3_domains :: "cand list lvdict" where
  "ex3_domains =
     [(ex2_vA, [(''T1'', ''R1'', ''I2'', False), (''T1'', ''R1'', ''I1'', True)]),
      (ex2_vB, [(''T2'', ''R1'', ''I2'', False), (''T1'', ''R1'', ''I1'', True),
                (''T2'', ''R1'', ''I1'', True)])]"

text \<open>An assignment of four sessions in which \<open>CA\<close> and \<open>CB\<close> share \<open>(T1, R1, I1)\<close> and the two
  sessions of \<open>C1\<close> are alone in their rooms and with their instructors; each unqualified
  session has one qualified option.\<close>

definition ex4_asg :: "cand lvdict" where
  "ex4_asg = [(ex_v 1, (''T3'', ''R3'', ''I3'', False)), (ex_v 0, (''T2'', ''R2'', ''I2'', False)),
              (ex2_vB, (''T1'', ''R1'', ''I1'', True)), (ex2_vA, (''T1'', ''R1'', ''I1'', False))]"

definition ex4_domains :: "cand list lvdict" where
  "ex4_domains =
     [(ex2_vA, [(''T4'', ''R4'', ''I4'', True)]),
      (ex_v 0, [(''T1'', ''R1'', ''I5'', True)]),
      (ex_v 1, [(''T1'', ''R5'', ''I1'', True)])]"

text \<open>Course \<open>A_B\<close> for section \<open>C\<close> (50 students) and course \<open>A\<close> for section \<open>B_C\<close>
  (10 students): both sessions are named \<open>A_B_C_L0\<close>.\<close>

definition exX_courses :: courses where
  "exX_courses = [''A_B'' \<mapsto> \<lparr>cname = ''Optics'', ctype = ''lab''\<rparr>,
                  ''A'' \<mapsto> \<lparr>cname = ''Circuits'', ctype = ''lab''\<rparr>]"

definition exX_sections :: "sec list" where
  "exX_sections =
     [\<lparr>section_id = ''C'', sec_group = ''1'', sec_year = 1, sec_students = 50\<rparr>,
      \<lparr>section_id = ''B_C'', sec_group = ''1'', sec_year = 2, sec_students = 10\<rparr>]"

definition exX_curriculum :: curriculum where
  "exX_curriculum = [1 \<mapsto> [''A_B''], 2 \<mapsto> [''A'']]"

definition exX_rooms :: rooms where
  "exX_rooms = [(''R1'', \<lparr>rtype = ''lab'', capacity = 20\<rparr>),
                (''R2'', \<lparr>rtype = ''lab'', capacity = 60\<rparr>)]"

definition exX_v1 :: LectureVar where
  "exX_v1 = \<lparr>course = ''A_B'', sect = ''C'', year = 1, idx = 0, students = 50\<rparr>"

definition exX_v2 :: LectureVar where
  "exX_v2 = \<lparr>course = ''A'', sect = ''B_C'', year = 2, idx = 0, students = 10\<rparr>"

definition exX_dom :: "cand list" where
  "exX_dom = [(''T1'', ''R1'', ''I1'', False), (''T1'', ''R2'', ''I1'', False),
              (''T2'', ''R1'', ''I1'', False), (''T2'', ''R2'', ''I1'', False)]"

text \<open>Course \<open>A_B\<close>, which is not in the courses table, for section \<open>C\<close> and the lab
  course \<open>A\<close> for section \<open>B_C\<close>, with a project room and a lab room that both hold
  either section: again both sessions are named \<open>A_B_C_L0\<close>.\<close>

definition exY_courses :: courses where
  "exY_courses = [''A'' \<mapsto> \<lparr>cname = ''Circuits'', ctype = ''lab''\<rparr>]"

definition exY_sections :: "sec list" where
  "exY_sections =
     [\<lparr>section_id = ''C'', sec_group = ''1'', sec_year = 1, sec_students = 10\<rparr>,
      \<lparr>section_id = ''B_C'', sec_group = ''1'', sec_year = 2, sec_students = 10\<rparr>]"

definition exY_rooms :: rooms where
  "exY_rooms = [(''R1'', \<lparr>rtype = ''project'', capacity = 30\<rparr>),
                (''R2'', \<lparr>rtype = ''lab'', capacity = 30\<rparr>)]"

definition exY_v1 :: LectureVar where
  "exY_v1 = \<lparr>course = ''A_B'', sect = ''C'', year = 1, idx = 0, students = 10\<rparr>"

definition exY_v2 :: LectureVar where
  "exY_v2 = \<lparr>course = ''A'', sect = ''B_C'', year = 2, idx = 0, students = 10\<rparr>"

section \<open>Strings and dicts\<close>

lemma str_in_iff: "str_in sub s \<longleftrightarrow> (\<exists>pre suf. s = pre @ sub @ suf)"
proof (induction s)
  case Nil
  then show ?case by auto
next
  case (Cons c cs)
  have "take (length sub) (c # cs) = sub \<longleftrightarrow> (\<exists>suf. c # cs = sub @ suf)"
    by (metis append_eq_conv_conj append_take_drop_id)
  moreover have "(\<exists>pre suf. c # cs = pre @ sub @ suf) \<longleftrightarrow>
      (\<exists>suf. c # cs = sub @ suf) \<or> (\<exists>pre suf. cs = pre @ sub @ suf)"
  proof
    assume "\<exists>pre suf. c # cs = pre @ sub @ suf"
    then obtain pre suf where e: "c # cs = pre @ sub @ suf" by blast
    show "(\<exists>suf. c # cs = sub @ suf) \<or> (\<exists>pre suf. cs = pre @ sub @ suf)"
    proof (cases pre)
      case Nil
      with e show ?thesis by auto
    next
      case (Cons p ps)
      with e have "cs = ps @ sub @ suf" by simp
      then show ?thesis by blast
    qed
  next
    assume "(\<exists>suf. c # cs = sub @ suf) \<or> (\<exists>pre suf. cs = pre @ sub @ suf)"
    then show "\<exists>pre suf. c # cs = pre @ sub @ suf"
    proof
      assume "\<exists>suf. c # cs = sub @ suf"
      then show ?thesis by (metis append_Nil)
    next
      assume "\<exists>pre suf. cs = pre @ sub @ suf"
      then obtain pre suf where "cs = pre @ sub @ suf" by blast
      then have "c # cs = (c # pre) @ sub @ suf" by simp
      then show ?thesis by blast
    qed
  qed
  ultimately show ?case using Cons.IH by simp
qed

lemma is_qual_key:
  "instr \<in> set (map fst instructors) \<Longrightarrow> \<exists>info. map_of instructors instr = Some info"
  by (metis map_of_eq_None_iff not_Some_eq set_map)

lemma dict_get_set:
  "dict_get (dict_set d k x) v = (if name k = name v then Some x else dict_get d v)"
  by (induction d) auto

lemma dict_get_name_cong: "name w = name v \<Longrightarrow> dict_get d w = dict_get d v"
  by (induction d) auto

section \<open>Properties of build\_vars\_domains\<close>

lemma fst_session_loop:
  "fst (foldl (session_step instructors rooms timeslots cid ctp s_id yr studs) st xs) =
     fst st @ map (\<lambda>i. \<lparr>course = cid, sect = s_id, year = yr, idx = i, students = studs\<rparr>) xs"
  by (induction xs arbitrary: st) (simp_all add: session_step_def Let_def)

lemma fst_course_loop:
  "fst (foldl (course_step courses instructors rooms timeslots (section_id s) (sec_year s)
          (sec_students s)) st cl) =
     fst st @ concat (map (sessions_of courses s) cl)"
  by (induction cl arbitrary: st)
     (simp_all add: course_step_def Let_def fst_session_loop sessions_of_def)

lemma fst_section_loop:
  "fst (foldl (section_step courses instructors rooms timeslots curriculum) st ss) =
     fst st @ concat (map (\<lambda>s. concat (map (sessions_of courses s)
        (case curriculum (sec_year s) of None \<Rightarrow> [] | Some l \<Rightarrow> l))) ss)"
  by (induction ss arbitrary: st) (simp_all add: section_step_def Let_def fst_course_loop)

lemma build_vars_eq:
  "fst (build_vars_domains courses instructors rooms timeslots sections curriculum) =
     concat (map (\<lambda>s. concat (map (sessions_of courses s)
        (case curriculum (sec_year s) of None \<Rightarrow> [] | Some l \<Rightarrow> l))) sections)"
  using fst_section_loop [of courses instructors rooms timeslots curriculum "([], [])" sections]
  by (simp add: build_vars_domains_def)

text \<open>
  Claim C6. For every input, the variables that \<open>build_vars_domains\<close> returns are, for
  each section in input order and each course id of the section's curriculum list in
  list order, the sessions with indices \<open>0..<sessions\<close>, where \<open>sessions\<close> is 2 when
  \<open>"lec"\<close> occurs in the course's type and 1 otherwise.
\<close>

theorem build_vars_sessions:
  "fst (build_vars_domains courses instructors rooms timeslots sections curriculum) =
     concat (map (\<lambda>s. concat (map (\<lambda>cid.
         map (\<lambda>i. \<lparr>course = cid, sect = section_id s, year = sec_year s, idx = i,
                    students = sec_students s\<rparr>)
             [0..<(if str_in ''lec'' (course_type courses cid) then 2 else 1)])
       (case curriculum (sec_year s) of None \<Rightarrow> [] | Some l \<Rightarrow> l))) sections)"
  by (simp add: build_vars_eq sessions_of_def [abs_def])

theorem build_vars_sessions_witness:
  "fst (build_vars_domains ex_courses ex_instructors ex_rooms [''T1'', ''T2''] ex_sections
          ex_curriculum) = [ex_v 0, ex_v 1]"
proof -
  have "concat (map (\<lambda>s. concat (map (\<lambda>cid.
         map (\<lambda>i. \<lparr>course = cid, sect = section_id s, year = sec_year s, idx = i,
                    students = sec_students s\<rparr>)
             [0..<(if str_in ''lec'' (course_type ex_courses cid) then 2 else 1)])
       (case ex_curriculum (sec_year s) of None \<Rightarrow> [] | Some l \<Rightarrow> l))) ex_sections) =
     [ex_v 0, ex_v 1]"
    by code_simp
  then show ?thesis
    using build_vars_sessions [of ex_courses ex_instructors ex_rooms "[''T1'', ''T2'']"
        ex_sections ex_curriculum]
    by simp
qed


lemma set_dom_instrs:
  "(t', r', instr, qual) \<in> set (dom_instrs instructors cid t r) \<longleftrightarrow>
     t' = t \<and> r' = r \<and> instr \<in> fst ` set instructors \<and> qual = is_qual instructors instr cid"
  by (auto simp: dom_instrs_def)

lemma set_dom_rooms:
  "(t', r, instr, qual) \<in> set (dom_rooms instructors rooms cid ctp studs t) \<longleftrightarrow>
     t' = t \<and>
     (\<exists>rinfo. (r, rinfo) \<in> set rooms \<and> compatible_room ctp (rtype rinfo) \<and>
        studs \<le> capacity rinfo) \<and>
     instr \<in> fst ` set instructors \<and> qual = is_qual instructors instr cid"
  by (induction rooms) (auto simp: dom_rooms_def set_dom_instrs)

lemma set_build_dom:
  "(t, r, instr, qual) \<in> set (build_dom instructors rooms timeslots cid ctp studs) \<longleftrightarrow>
     t \<in> set timeslots \<and>
     (\<exists>rinfo. (r, rinfo) \<in> set rooms \<and> compatible_room ctp (rtype rinfo) \<and>
        studs \<le> capacity rinfo) \<and>
     instr \<in> fst ` set instructors \<and> qual = is_qual instructors instr cid"
  by (auto simp: build_dom_def set_dom_rooms)






lemma compatible_room_empty: "compatible_room [] rt"
  by (simp add: compatible_room_def lower_def)

lemma build_dom_empty_type:
  "build_dom instructors rooms timeslots cid [] studs =
     [(t, r, instr, is_qual instructors instr cid).
        t \<leftarrow> timeslots, (r, rinfo) \<leftarrow> rooms, studs \<le> capacity rinfo,
        instr \<leftarrow> map fst instructors]"
proof -
  have "dom_rooms instructors rooms cid [] studs =
      (\<lambda>t. concat (map (\<lambda>(r, rinfo). if studs \<le> capacity rinfo
          then map (\<lambda>instr. (t, r, instr, is_qual instructors instr cid)) (map fst instructors)
          else []) rooms))"
    unfolding dom_rooms_def dom_instrs_def
    by (rule ext, rule arg_cong [where f = concat], rule map_cong)
       (auto simp: compatible_room_empty)
  then show ?thesis
    by (simp add: build_dom_def)
qed

text \<open>
  For a course id that is absent from the courses table the type defaults to the empty
  string; the loop body for that curriculum entry appends exactly one session (index 0)
  and stores under its name the domain of all timeslots, all rooms whose capacity is at
  least the student count, and all instructors; \<open>compatible_room\<close> holds for the empty
  course type against every room type.
\<close>

theorem missing_course_default:
  assumes "courses cid = None"
  shows "course_type courses cid = [] \<and>
         (\<forall>rt. compatible_room (course_type courses cid) rt) \<and>
         course_step courses instructors rooms timeslots s_id yr studs st cid =
           (fst st @ [\<lparr>course = cid, sect = s_id, year = yr, idx = 0, students = studs\<rparr>],
            dict_set (snd st) \<lparr>course = cid, sect = s_id, year = yr, idx = 0, students = studs\<rparr>
              [(t, r, instr, is_qual instructors instr cid).
                 t \<leftarrow> timeslots, (r, rinfo) \<leftarrow> rooms, studs \<le> capacity rinfo,
                 instr \<leftarrow> map fst instructors])"
proof -
  have ct: "course_type courses cid = []"
    using assms by (simp add: course_type_def)
  have "course_step courses instructors rooms timeslots s_id yr studs st cid =
      session_step instructors rooms timeslots cid [] s_id yr studs st 0"
    by (simp add: course_step_def ct)
  then show ?thesis
    by (simp add: ct compatible_room_empty session_step_def Let_def build_dom_empty_type)
qed

theorem missing_course_default_witness:
  "course_type ex_courses ''C9'' = [] \<and>
   (\<forall>rt. compatible_room (course_type ex_courses ''C9'') rt) \<and>
   course_step ex_courses ex_instructors ex_lab_rooms [''T1''] ''S1'' 1 10 ([], []) ''C9'' =
     ([ex_v9], [(ex_v9, [(''T1'', ''R1'', ''I1'', False)])])"
proof -
  have h: "ex_courses ''C9'' = None"
    by (simp add: ex_courses_def)
  have "[(t, r, instr, is_qual ex_instructors instr ''C9'').
           t \<leftarrow> [''T1''], (r, rinfo) \<leftarrow> ex_lab_rooms, 10 \<le> capacity rinfo,
           instr \<leftarrow> map fst ex_instructors] = [(''T1'', ''R1'', ''I1'', False)]"
    by (simp add: ex_lab_rooms_def ex_instructors_def is_qual_def)
  then show ?thesis
    using h missing_course_default [where courses = ex_courses and cid = "''C9''"
        and instructors = ex_instructors and rooms = ex_lab_rooms and timeslots = "[''T1'']"
        and s_id = "''S1''" and yr = 1 and studs = 10 and st = "([], [])"]
    by (auto simp: ex_v9_def)
qed

section \<open>Properties of the greedy loop\<close>

lemma first_free_Some_iff:
  "first_free ur ui xs = Some c \<longleftrightarrow>
     (\<exists>pre post. xs = pre @ c # post \<and> \<not> blocked ur ui c \<and> (\<forall>d\<in>set pre. blocked ur ui d))"
proof (induction xs)
  case Nil
  then show ?case by simp
next
  case (Cons x xs)
  obtain t r i q where x: "x = (t, r, i, q)" by (cases x) auto
  show ?case
  proof (cases "blocked ur ui x")
    case True
    then have ff: "first_free ur ui (x # xs) = first_free ur ui xs"
      by (simp add: x blocked_def c_t_def c_r_def c_i_def)
    have "(\<exists>pre post. x # xs = pre @ c # post \<and> \<not> blocked ur ui c \<and> (\<forall>d\<in>set pre. blocked ur ui d))
        \<longleftrightarrow> (\<exists>pre post. xs = pre @ c # post \<and> \<not> blocked ur ui c \<and> (\<forall>d\<in>set pre. blocked ur ui d))"
    proof
      assume "\<exists>pre post. x # xs = pre @ c # post \<and> \<not> blocked ur ui c \<and> (\<forall>d\<in>set pre. blocked ur ui d)"
      then obtain pre post where e: "x # xs = pre @ c # post" and nb: "\<not> blocked ur ui c"
        and b: "\<forall>d\<in>set pre. blocked ur ui d" by blast
      from e nb True obtain pre' where "pre = x # pre'" by (cases pre) auto
      with e b have "xs = pre' @ c # post \<and> (\<forall>d\<in>set pre'. blocked ur ui d)" by simp
      with nb show "\<exists>pre post. xs = pre @ c # post \<and> \<not> blocked ur ui c \<and> (\<forall>d\<in>set pre. blocked ur ui d)"
        by blast
    next
      assume "\<exists>pre post. xs = pre @ c # post \<and> \<not> blocked ur ui c \<and> (\<forall>d\<in>set pre. blocked ur ui d)"
      then obtain pre post where e: "xs = pre @ c # post" and nb: "\<not> blocked ur ui c"
        and b: "\<forall>d\<in>set pre. blocked ur ui d" by blast
      from e b True have "x # xs = (x # pre) @ c # post \<and> (\<forall>d\<in>set (x # pre). blocked ur ui d)" by simp
      with nb show "\<exists>pre post. x # xs = pre @ c # post \<and> \<not> blocked ur ui c \<and> (\<forall>d\<in>set pre. blocked ur ui d)"
        by blast
    qed
    with ff Cons.IH show ?thesis by simp
  next
    case False
    then have ff: "first_free ur ui (x # xs) = Some x"
      by (simp add: x blocked_def c_t_def c_r_def c_i_def)
    have "(\<exists>pre post. x # xs = pre @ c # post \<and> \<not> blocked ur ui c \<and> (\<forall>d\<in>set pre. blocked ur ui d))
        \<longleftrightarrow> x = c"
    proof
      assume "\<exists>pre post. x # xs = pre @ c # post \<and> \<not> blocked ur ui c \<and> (\<forall>d\<in>set pre. blocked ur ui d)"
      then obtain pre post where e: "x # xs = pre @ c # post"
        and b: "\<forall>d\<in>set pre. blocked ur ui d" by blast
      show "x = c"
      proof (cases pre)
        case Nil
        with e show ?thesis by simp
      next
        case (Cons p ps)
        with e b False show ?thesis by auto
      qed
    next
      assume "x = c"
      with False have "x # xs = [] @ c # xs \<and> \<not> blocked ur ui c \<and> (\<forall>d\<in>set []. blocked ur ui d)" by simp
      then show "\<exists>pre post. x # xs = pre @ c # post \<and> \<not> blocked ur ui c \<and> (\<forall>d\<in>set pre. blocked ur ui d)"
        by blast
    qed
    with ff show ?thesis by simp
  qed
qed

lemma first_free_None_iff:
  "first_free ur ui xs = None \<longleftrightarrow> (\<forall>d\<in>set xs. blocked ur ui d)"
  by (induction xs rule: first_free.induct)
     (auto simp: blocked_def c_t_def c_r_def c_i_def)

lemma first_free_Some_mem:
  "first_free ur ui xs = Some c \<Longrightarrow> c \<in> set xs \<and> \<not> blocked ur ui c"
  using first_free_Some_iff by fastforce

lemma conf_of_range: "0 \<le> conf_of ur ui d \<and> conf_of ur ui d \<le> 2"
  by (simp add: conf_of_def)

lemma fallback_scan_cases:
  "fallback_scan ur ui xs (b, bc) = (b', bc') \<Longrightarrow>
     ((\<forall>d\<in>set xs. bc \<le> conf_of ur ui d) \<and> b' = b \<and> bc' = bc) \<or>
     (\<exists>pre c post. xs = pre @ c # post \<and> b' = Some c \<and> bc' = conf_of ur ui c \<and>
        conf_of ur ui c < bc \<and>
        (\<forall>d\<in>set pre. conf_of ur ui c < conf_of ur ui d) \<and>
        (\<forall>d\<in>set post. conf_of ur ui c \<le> conf_of ur ui d))"
proof (induction xs arbitrary: b bc)
  case Nil
  then show ?case by simp
next
  case (Cons x xs)
  show ?case
  proof (cases "conf_of ur ui x < bc")
    case True
    with Cons.prems have "fallback_scan ur ui xs (Some x, conf_of ur ui x) = (b', bc')"
      by (simp add: Let_def)
    from Cons.IH [OF this] show ?thesis
    proof
      assume a: "(\<forall>d\<in>set xs. conf_of ur ui x \<le> conf_of ur ui d) \<and> b' = Some x \<and> bc' = conf_of ur ui x"
      then have "x # xs = [] @ x # xs \<and> b' = Some x \<and> bc' = conf_of ur ui x \<and>
        conf_of ur ui x < bc \<and> (\<forall>d\<in>set []. conf_of ur ui x < conf_of ur ui d) \<and>
        (\<forall>d\<in>set xs. conf_of ur ui x \<le> conf_of ur ui d)" using True by simp
      then show ?thesis by blast
    next
      assume "\<exists>pre c post. xs = pre @ c # post \<and> b' = Some c \<and> bc' = conf_of ur ui c \<and>
        conf_of ur ui c < conf_of ur ui x \<and>
        (\<forall>d\<in>set pre. conf_of ur ui c < conf_of ur ui d) \<and>
        (\<forall>d\<in>set post. conf_of ur ui c \<le> conf_of ur ui d)"
      then obtain pre c post where h: "xs = pre @ c # post" "b' = Some c" "bc' = conf_of ur ui c"
        "conf_of ur ui c < conf_of ur ui x"
        "\<forall>d\<in>set pre. conf_of ur ui c < conf_of ur ui d"
        "\<forall>d\<in>set post. conf_of ur ui c \<le> conf_of ur ui d" by blast
      then have "x # xs = (x # pre) @ c # post \<and> b' = Some c \<and> bc' = conf_of ur ui c \<and>
        conf_of ur ui c < bc \<and> (\<forall>d\<in>set (x # pre). conf_of ur ui c < conf_of ur ui d) \<and>
        (\<forall>d\<in>set post. conf_of ur ui c \<le> conf_of ur ui d)" using True by simp
      then show ?thesis by blast
    qed
  next
    case False
    with Cons.prems have "fallback_scan ur ui xs (b, bc) = (b', bc')"
      by (simp add: Let_def)
    from Cons.IH [OF this] show ?thesis
    proof
      assume "(\<forall>d\<in>set xs. bc \<le> conf_of ur ui d) \<and> b' = b \<and> bc' = bc"
      with False show ?thesis by simp
    next
      assume "\<exists>pre c post. xs = pre @ c # post \<and> b' = Some c \<and> bc' = conf_of ur ui c \<and>
        conf_of ur ui c < bc \<and>
        (\<forall>d\<in>set pre. conf_of ur ui c < conf_of ur ui d) \<and>
        (\<forall>d\<in>set post. conf_of ur ui c \<le> conf_of ur ui d)"
      then obtain pre c post where h: "xs = pre @ c # post" "b' = Some c" "bc' = conf_of ur ui c"
        "conf_of ur ui c < bc"
        "\<forall>d\<in>set pre. conf_of ur ui c < conf_of ur ui d"
        "\<forall>d\<in>set post. conf_of ur ui c \<le> conf_of ur ui d" by blast
      then have "x # xs = (x # pre) @ c # post \<and> b' = Some c \<and> bc' = conf_of ur ui c \<and>
        conf_of ur ui c < bc \<and> (\<forall>d\<in>set (x # pre). conf_of ur ui c < conf_of ur ui d) \<and>
        (\<forall>d\<in>set post. conf_of ur ui c \<le> conf_of ur ui d)" using False by simp
      then show ?thesis by blast
    qed
  qed
qed

lemma fallback_best:
  assumes "dm \<noteq> []"
  shows "\<exists>pre c post. dm = pre @ c # post \<and>
           fst (fallback_scan ur ui dm (None, 1000000000)) = Some c \<and>
           (\<forall>d\<in>set pre. conf_of ur ui c < conf_of ur ui d) \<and>
           (\<forall>d\<in>set post. conf_of ur ui c \<le> conf_of ur ui d)"
proof -
  obtain b' bc' where r: "fallback_scan ur ui dm (None, 1000000000) = (b', bc')"
    by (cases "fallback_scan ur ui dm (None, 1000000000)") auto
  from assms obtain d where "d \<in> set dm" by (cases dm) auto
  moreover have "conf_of ur ui d \<le> 2" by (simp add: conf_of_range)
  ultimately have "\<not> (\<forall>d\<in>set dm. 1000000000 \<le> conf_of ur ui d)" by force
  with fallback_scan_cases [OF r] obtain pre c post where
    "dm = pre @ c # post" "b' = Some c"
    "\<forall>d\<in>set pre. conf_of ur ui c < conf_of ur ui d"
    "\<forall>d\<in>set post. conf_of ur ui c \<le> conf_of ur ui d" by blast
  moreover have "fst (fallback_scan ur ui dm (None, 1000000000)) = b'" by (simp add: r)
  ultimately show ?thesis by blast
qed

lemma pick_chosen_first:
  "first_free ur ui (filter (\<lambda>d. c_q d) dm @ filter (\<lambda>d. \<not> c_q d) dm) = Some c \<Longrightarrow>
     pick_chosen ur ui dm n = (c, n)"
  by (simp add: pick_chosen_def Let_def)

lemma pick_chosen_fallback:
  "first_free ur ui (filter (\<lambda>d. c_q d) dm @ filter (\<lambda>d. \<not> c_q d) dm) = None \<Longrightarrow>
   fst (fallback_scan ur ui dm (None, 1000000000)) = Some c \<Longrightarrow>
     pick_chosen ur ui dm n = (c, n + 1)"
  by (simp add: pick_chosen_def Let_def)

lemma pick_chosen_empty:
  "pick_chosen ur ui [] n = ((''ts0'', ''room0'', ''instr0'', False), n + 1)"
  by (simp add: pick_chosen_def Let_def synthetic_def)

lemma greedy_order_props:
  "sorted_wrt (\<lambda>a b. students b \<le> students a) (greedy_order variables) \<and>
   mset (greedy_order variables) = mset variables \<and>
   (\<forall>k. filter (\<lambda>v. students v = k) (greedy_order variables) = filter (\<lambda>v. students v = k) variables)"
proof -
  have "sorted (map (\<lambda>x. - students x) (greedy_order variables))"
    by (simp add: greedy_order_def)
  then have "sorted_wrt (\<lambda>a b. students b \<le> students a) (greedy_order variables)"
    by (simp add: sorted_wrt_map)
  moreover have "filter (\<lambda>v. students v = k) (greedy_order variables) = filter (\<lambda>v. students v = k) variables" for k
    using sort_key_stable [of "\<lambda>x. - students x" "- k" variables]
    by (simp add: greedy_order_def)
  ultimately show ?thesis by (simp add: greedy_order_def)
qed


lemma pick_chosen_mono: "n \<le> snd (pick_chosen ur ui dm n)"
  by (simp add: pick_chosen_def Let_def split: option.splits)

lemma greedy_step_violations: "violations st \<le> violations (greedy_step domains st w)"
  by (simp add: greedy_step_def Let_def pick_chosen_mono)

lemma greedy_step_first:
  assumes "first_free (used_room_ts st) (used_instr_ts st)
             (filter (\<lambda>d. c_q d) (dict_get_or domains v []) @
              filter (\<lambda>d. \<not> c_q d) (dict_get_or domains v [])) = Some c"
  shows "greedy_step domains st v =
           \<lparr>assigned = dict_set (assigned st) v c,
            used_room_ts = insert (c_t c, c_r c) (used_room_ts st),
            used_instr_ts = insert (c_t c, c_i c) (used_instr_ts st),
            violations = violations st\<rparr>"
  by (simp add: greedy_step_def Let_def pick_chosen_first [OF assms])

lemma greedy_step_empty:
  assumes "dict_get_or domains v [] = []"
  shows "greedy_step domains st v =
           \<lparr>assigned = dict_set (assigned st) v (''ts0'', ''room0'', ''instr0'', False),
            used_room_ts = insert (''ts0'', ''room0'') (used_room_ts st),
            used_instr_ts = insert (''ts0'', ''instr0'') (used_instr_ts st),
            violations = violations st + 1\<rparr>"
  by (simp add: greedy_step_def Let_def assms pick_chosen_empty c_t_def c_r_def c_i_def)

lemma dict_get_or_name_cong: "name w = name v \<Longrightarrow> dict_get_or d w x = dict_get_or d v x"
  using dict_get_name_cong [of w v d] by (simp add: dict_get_or_def)

text \<open>Once a session with an empty domain has been processed, its entry stays the
  synthetic tuple for the rest of the loop.\<close>

lemma greedy_loop_keeps_synthetic:
  assumes "dict_get_or domains v [] = []"
      and "dict_get (assigned st) v = Some (''ts0'', ''room0'', ''instr0'', False)"
      and "1 \<le> violations st"
  shows "dict_get (assigned (foldl (greedy_step domains) st ws)) v =
           Some (''ts0'', ''room0'', ''instr0'', False) \<and>
         1 \<le> violations (foldl (greedy_step domains) st ws)"
  using assms(2,3)
proof (induction ws arbitrary: st)
  case Nil
  then show ?case by simp
next
  case (Cons w ws)
  have "dict_get (assigned (greedy_step domains st w)) v =
          Some (''ts0'', ''room0'', ''instr0'', False)"
  proof (cases "name w = name v")
    case True
    then have "dict_get_or domains w [] = []"
      using assms(1) dict_get_or_name_cong [of w v domains "[]"] by simp
    then show ?thesis
      using True by (simp add: greedy_step_empty dict_get_set)
  next
    case False
    then show ?thesis
      using Cons.prems(1) by (simp add: greedy_step_def Let_def dict_get_set)
  qed
  moreover have "1 \<le> violations (greedy_step domains st w)"
    using Cons.prems(2) greedy_step_violations [of st domains w] by linarith
  ultimately show ?case
    using Cons.IH by simp
qed

lemma greedy_loop_synthetic:
  assumes "dict_get_or domains v [] = []" and "v \<in> set ws"
  shows "dict_get (assigned (foldl (greedy_step domains) st ws)) v =
           Some (''ts0'', ''room0'', ''instr0'', False) \<and>
         1 \<le> violations (foldl (greedy_step domains) st ws)"
  using assms(2)
proof (induction ws arbitrary: st)
  case Nil
  then show ?case by simp
next
  case (Cons w ws)
  show ?case
  proof (cases "w = v")
    case True
    have "dict_get (assigned (greedy_step domains st v)) v =
          Some (''ts0'', ''room0'', ''instr0'', False)"
      by (simp add: greedy_step_empty [OF assms(1)] dict_get_set)
    moreover have "1 \<le> violations (greedy_step domains st v)"
      by (simp add: greedy_step_empty [OF assms(1)])
    ultimately show ?thesis
      using greedy_loop_keeps_synthetic [OF assms(1)] True by simp
  next
    case False
    with Cons.prems have "v \<in> set ws" by simp
    then show ?thesis using Cons.IH by simp
  qed
qed

text \<open>The state in which the loop reaches a variable, and the entries a step leaves alone.\<close>

lemma greedy_assign_split:
  assumes "greedy_order variables = ws1 @ v # ws2"
      and "st = foldl (greedy_step domains) greedy_init ws1"
  shows "greedy_assign variables domains =
           (assigned (foldl (greedy_step domains) (greedy_step domains st v) ws2),
            violations (foldl (greedy_step domains) (greedy_step domains st v) ws2))"
  using assms by (simp add: greedy_assign_def greedy_run_def Let_def)

lemma greedy_step_frame:
  "name w \<noteq> name v \<Longrightarrow>
     dict_get (assigned (greedy_step domains st v)) w = dict_get (assigned st) w"
  by (simp add: greedy_step_def Let_def dict_get_set)

text \<open>
  Claim C7. \<open>greedy_assign\<close> runs its loop body over the variables sorted by descending
  student count; the sort is stable, so variables with equal counts keep the order in
  which \<open>build_vars_domains\<close> emitted them. For each variable the loop body commits the
  first candidate of the qualified candidates followed by the unqualified ones (each
  group in domain order) whose room pair and instructor pair are both unoccupied: after
  the step the assignment maps the variable to that candidate and every session of
  another name to what it had, both pairs of the candidate are in the occupancy sets,
  and the violation counter is unchanged. When the variable is reached in the state
  \<open>st\<close> of the run, the result of \<open>greedy_assign\<close> is what the rest of the loop makes of
  that step.
\<close>

theorem greedy_order_first_fit:
  assumes "filter (\<lambda>d. c_q d) (dict_get_or domains v []) @
           filter (\<lambda>d. \<not> c_q d) (dict_get_or domains v []) = pre @ c # post"
      and "\<forall>d\<in>set pre.
             (c_t d, c_r d) \<in> used_room_ts st \<or> (c_t d, c_i d) \<in> used_instr_ts st"
      and "\<not> ((c_t c, c_r c) \<in> used_room_ts st \<or> (c_t c, c_i c) \<in> used_instr_ts st)"
  shows "sorted_wrt (\<lambda>a b. students b \<le> students a) (greedy_order variables) \<and>
         mset (greedy_order variables) = mset variables \<and>
         (\<forall>k. filter (\<lambda>x. students x = k) (greedy_order variables) =
              filter (\<lambda>x. students x = k) variables) \<and>
         greedy_assign variables domains =
           (assigned (foldl (greedy_step domains) greedy_init (greedy_order variables)),
            violations (foldl (greedy_step domains) greedy_init (greedy_order variables))) \<and>
         greedy_step domains st v =
           \<lparr>assigned = dict_set (assigned st) v c,
            used_room_ts = insert (c_t c, c_r c) (used_room_ts st),
            used_instr_ts = insert (c_t c, c_i c) (used_instr_ts st),
            violations = violations st\<rparr> \<and>
         dict_get (assigned (greedy_step domains st v)) v = Some c \<and>
         (\<forall>w. name w \<noteq> name v \<longrightarrow>
            dict_get (assigned (greedy_step domains st v)) w = dict_get (assigned st) w) \<and>
         (greedy_order variables = ws1 @ v # ws2 \<and>
          st = foldl (greedy_step domains) greedy_init ws1 \<longrightarrow>
            greedy_assign variables domains =
              (assigned (foldl (greedy_step domains)
                 \<lparr>assigned = dict_set (assigned st) v c,
                  used_room_ts = insert (c_t c, c_r c) (used_room_ts st),
                  used_instr_ts = insert (c_t c, c_i c) (used_instr_ts st),
                  violations = violations st\<rparr> ws2),
               violations (foldl (greedy_step domains)
                 \<lparr>assigned = dict_set (assigned st) v c,
                  used_room_ts = insert (c_t c, c_r c) (used_room_ts st),
                  used_instr_ts = insert (c_t c, c_i c) (used_instr_ts st),
                  violations = violations st\<rparr> ws2)))"
proof -
  have "first_free (used_room_ts st) (used_instr_ts st)
          (filter (\<lambda>d. c_q d) (dict_get_or domains v []) @
           filter (\<lambda>d. \<not> c_q d) (dict_get_or domains v [])) = Some c"
    using assms [folded blocked_def] first_free_Some_iff by blast
  from greedy_step_first [OF this]
  have s: "greedy_step domains st v =
           \<lparr>assigned = dict_set (assigned st) v c,
            used_room_ts = insert (c_t c, c_r c) (used_room_ts st),
            used_instr_ts = insert (c_t c, c_i c) (used_instr_ts st),
            violations = violations st\<rparr>" .
  have g: "dict_get (assigned (greedy_step domains st v)) v = Some c"
    by (simp add: s dict_get_set)
  have f: "\<forall>w. name w \<noteq> name v \<longrightarrow>
            dict_get (assigned (greedy_step domains st v)) w = dict_get (assigned st) w"
    using greedy_step_frame by blast
  have r: "greedy_order variables = ws1 @ v # ws2 \<and>
          st = foldl (greedy_step domains) greedy_init ws1 \<longrightarrow>
            greedy_assign variables domains =
              (assigned (foldl (greedy_step domains) (greedy_step domains st v) ws2),
               violations (foldl (greedy_step domains) (greedy_step domains st v) ws2))"
    using greedy_assign_split by blast
  have a: "greedy_assign variables domains =
           (assigned (foldl (greedy_step domains) greedy_init (greedy_order variables)),
            violations (foldl (greedy_step domains) greedy_init (greedy_order variables)))"
    by (simp add: greedy_assign_def greedy_run_def Let_def)
  from greedy_order_props [of variables] a g f r show ?thesis
    unfolding s by blast
qed

theorem greedy_order_first_fit_witness:
  "sorted_wrt (\<lambda>a b. students b \<le> students a) (greedy_order [ex_v 0, ex_v 1]) \<and>
   mset (greedy_order [ex_v 0, ex_v 1]) = mset [ex_v 0, ex_v 1] \<and>
   greedy_order [ex_v 0, ex_v 1] = [ex_v 0, ex_v 1] \<and>
   foldl (greedy_step ex_domains) greedy_init [ex_v 0] = ex_st1 \<and>
   greedy_step ex_domains ex_st1 (ex_v 1) =
     \<lparr>assigned = [(ex_v 0, (''T1'', ''R1'', ''I1'', True)), (ex_v 1, (''T2'', ''R1'', ''I1'', True))],
      used_room_ts = {(''T2'', ''R1''), (''T1'', ''R1'')},
      used_instr_ts = {(''T2'', ''I1''), (''T1'', ''I1'')},
      violations = 0\<rparr> \<and>
   dict_get (assigned (greedy_step ex_domains ex_st1 (ex_v 1))) (ex_v 1) =
     Some (''T2'', ''R1'', ''I1'', True) \<and>
   dict_get (assigned (greedy_step ex_domains ex_st1 (ex_v 1))) (ex_v 0) =
     Some (''T1'', ''R1'', ''I1'', True) \<and>
   greedy_assign [ex_v 0, ex_v 1] ex_domains =
     ([(ex_v 0, (''T1'', ''R1'', ''I1'', True)), (ex_v 1, (''T2'', ''R1'', ''I1'', True))], 0)"
proof -
  let ?c = "(''T2'', ''R1'', ''I1'', True)"
  have h1: "filter (\<lambda>d. c_q d) (dict_get_or ex_domains (ex_v 1) []) @
            filter (\<lambda>d. \<not> c_q d) (dict_get_or ex_domains (ex_v 1) []) =
            [(''T1'', ''R1'', ''I1'', True)] @ ?c # []"
    by code_simp
  have h2: "\<forall>d\<in>set [(''T1'', ''R1'', ''I1'', True)].
              (c_t d, c_r d) \<in> used_room_ts ex_st1 \<or> (c_t d, c_i d) \<in> used_instr_ts ex_st1"
    by code_simp
  have h3: "\<not> ((c_t ?c, c_r ?c) \<in> used_room_ts ex_st1 \<or> (c_t ?c, c_i ?c) \<in> used_instr_ts ex_st1)"
    by code_simp
  have o: "greedy_order [ex_v 0, ex_v 1] = [ex_v 0] @ ex_v 1 # []"
    by code_simp
  have i: "ex_st1 = foldl (greedy_step ex_domains) greedy_init [ex_v 0]"
    by code_simp
  have n: "name (ex_v 0) \<noteq> name (ex_v 1)"
    by code_simp
  have e: "\<lparr>assigned = dict_set (assigned ex_st1) (ex_v 1) ?c,
            used_room_ts = insert (c_t ?c, c_r ?c) (used_room_ts ex_st1),
            used_instr_ts = insert (c_t ?c, c_i ?c) (used_instr_ts ex_st1),
            violations = violations ex_st1\<rparr> =
           \<lparr>assigned = [(ex_v 0, (''T1'', ''R1'', ''I1'', True)), (ex_v 1, ?c)],
            used_room_ts = {(''T2'', ''R1''), (''T1'', ''R1'')},
            used_instr_ts = {(''T2'', ''I1''), (''T1'', ''I1'')},
            violations = 0\<rparr>"
    by code_simp
  have g0: "dict_get (assigned ex_st1) (ex_v 0) = Some (''T1'', ''R1'', ''I1'', True)"
    by code_simp
  note t = greedy_order_first_fit [OF h1 h2 h3, where variables = "[ex_v 0, ex_v 1]"
      and ?ws1.0 = "[ex_v 0]" and ?ws2.0 = "[]"]
  from t o i n g0 show ?thesis
    unfolding e by (simp del: split_paired_All split_paired_Ex)
qed

text \<open>
  Claim C8. When the domain of a variable is not empty and every candidate in it has an
  occupied room pair or an occupied instructor pair, the loop body commits the candidate
  \<open>c\<close> of the domain whose conflict score (one if its room pair is occupied plus one if
  its instructor pair is occupied) is strictly below the score of every earlier
  candidate and at most the score of every later one: after the step the assignment
  maps the variable to \<open>c\<close>, both pairs of \<open>c\<close> are in the occupancy sets and the
  violation counter is higher by exactly one. When the variable is reached in the state
  \<open>st\<close> of the run, the result of \<open>greedy_assign\<close> is what the rest of the loop makes of
  that step.
\<close>

theorem fallback_least_conflict:
  assumes "dict_get_or domains v [] \<noteq> []"
      and "\<forall>d\<in>set (dict_get_or domains v []).
             (c_t d, c_r d) \<in> used_room_ts st \<or> (c_t d, c_i d) \<in> used_instr_ts st"
  shows "\<exists>pre c post.
           dict_get_or domains v [] = pre @ c # post \<and>
           (\<forall>d\<in>set pre.
              (if (c_t c, c_r c) \<in> used_room_ts st then 1 else 0) +
              (if (c_t c, c_i c) \<in> used_instr_ts st then 1 else (0::int)) <
              (if (c_t d, c_r d) \<in> used_room_ts st then 1 else 0) +
              (if (c_t d, c_i d) \<in> used_instr_ts st then 1 else 0)) \<and>
           (\<forall>d\<in>set post.
              (if (c_t c, c_r c) \<in> used_room_ts st then 1 else 0) +
              (if (c_t c, c_i c) \<in> used_instr_ts st then 1 else (0::int)) \<le>
              (if (c_t d, c_r d) \<in> used_room_ts st then 1 else 0) +
              (if (c_t d, c_i d) \<in> used_instr_ts st then 1 else 0)) \<and>
           greedy_step domains st v =
             \<lparr>assigned = dict_set (assigned st) v c,
              used_room_ts = insert (c_t c, c_r c) (used_room_ts st),
              used_instr_ts = insert (c_t c, c_i c) (used_instr_ts st),
              violations = violations st + 1\<rparr> \<and>
           dict_get (assigned (greedy_step domains st v)) v = Some c \<and>
           (greedy_order variables = ws1 @ v # ws2 \<and>
            st = foldl (greedy_step domains) greedy_init ws1 \<longrightarrow>
              greedy_assign variables domains =
                (assigned (foldl (greedy_step domains)
                   \<lparr>assigned = dict_set (assigned st) v c,
                    used_room_ts = insert (c_t c, c_r c) (used_room_ts st),
                    used_instr_ts = insert (c_t c, c_i c) (used_instr_ts st),
                    violations = violations st + 1\<rparr> ws2),
                 violations (foldl (greedy_step domains)
                   \<lparr>assigned = dict_set (assigned st) v c,
                    used_room_ts = insert (c_t c, c_r c) (used_room_ts st),
                    used_instr_ts = insert (c_t c, c_i c) (used_instr_ts st),
                    violations = violations st + 1\<rparr> ws2)))"
proof -
  let ?dm = "dict_get_or domains v []"
  let ?ur = "used_room_ts st" and ?ui = "used_instr_ts st"
  have "\<forall>d\<in>set ?dm. blocked ?ur ?ui d"
    using assms(2) by (simp add: blocked_def)
  then have none: "first_free ?ur ?ui (filter (\<lambda>d. c_q d) ?dm @ filter (\<lambda>d. \<not> c_q d) ?dm) = None"
    by (auto simp: first_free_None_iff)
  from fallback_best [OF assms(1), of ?ur ?ui] obtain pre c post where
    h: "?dm = pre @ c # post" "fst (fallback_scan ?ur ?ui ?dm (None, 1000000000)) = Some c"
       "\<forall>d\<in>set pre. conf_of ?ur ?ui c < conf_of ?ur ?ui d"
       "\<forall>d\<in>set post. conf_of ?ur ?ui c \<le> conf_of ?ur ?ui d"
    by blast
  have s: "greedy_step domains st v =
             \<lparr>assigned = dict_set (assigned st) v c,
              used_room_ts = insert (c_t c, c_r c) ?ur,
              used_instr_ts = insert (c_t c, c_i c) ?ui,
              violations = violations st + 1\<rparr>"
    by (simp add: greedy_step_def Let_def pick_chosen_fallback [OF none h(2)])
  have g: "dict_get (assigned (greedy_step domains st v)) v = Some c"
    by (simp add: s dict_get_set)
  have r: "greedy_order variables = ws1 @ v # ws2 \<and>
          st = foldl (greedy_step domains) greedy_init ws1 \<longrightarrow>
            greedy_assign variables domains =
              (assigned (foldl (greedy_step domains) (greedy_step domains st v) ws2),
               violations (foldl (greedy_step domains) (greedy_step domains st v) ws2))"
    using greedy_assign_split by blast
  from h(1) h(3,4) [unfolded conf_of_def] g r show ?thesis
    unfolding s by blast
qed

theorem fallback_least_conflict_witness:
  "\<exists>pre c post.
     dict_get_or ex2_domains ex2_vB [] = pre @ c # post \<and>
     pre = [(''T1'', ''R1'', ''I1'', False)] \<and> c = (''T1'', ''R1'', ''I2'', False) \<and>
     post = [(''T1'', ''R1'', ''I3'', True)] \<and>
     foldl (greedy_step ex2_domains) greedy_init [ex2_vA] = ex2_st1 \<and>
     greedy_step ex2_domains ex2_st1 ex2_vB =
       \<lparr>assigned = [(ex2_vA, (''T1'', ''R1'', ''I1'', True)), (ex2_vB, (''T1'', ''R1'', ''I2'', False))],
        used_room_ts = {(''T1'', ''R1'')},
        used_instr_ts = {(''T1'', ''I2''), (''T1'', ''I1'')},
        violations = 1\<rparr> \<and>
     dict_get (assigned (greedy_step ex2_domains ex2_st1 ex2_vB)) ex2_vB =
       Some (''T1'', ''R1'', ''I2'', False) \<and>
     greedy_assign [ex2_vA, ex2_vB] ex2_domains =
       ([(ex2_vA, (''T1'', ''R1'', ''I1'', True)), (ex2_vB, (''T1'', ''R1'', ''I2'', False))], 1)"
proof -
  let ?a = "(''T1'', ''R1'', ''I1'', False)" and ?b = "(''T1'', ''R1'', ''I2'', False)"
  let ?d = "(''T1'', ''R1'', ''I3'', True)"
  let ?sc = "\<lambda>x. (if (c_t x, c_r x) \<in> used_room_ts ex2_st1 then 1 else 0) +
              (if (c_t x, c_i x) \<in> used_instr_ts ex2_st1 then 1 else (0::int))"
  have dm: "dict_get_or ex2_domains ex2_vB [] = [?a, ?b, ?d]"
    by code_simp
  have h1: "dict_get_or ex2_domains ex2_vB [] \<noteq> []"
    by code_simp
  have h2: "\<forall>d\<in>set (dict_get_or ex2_domains ex2_vB []).
              (c_t d, c_r d) \<in> used_room_ts ex2_st1 \<or> (c_t d, c_i d) \<in> used_instr_ts ex2_st1"
    by code_simp
  have o: "greedy_order [ex2_vA, ex2_vB] = [ex2_vA] @ ex2_vB # []"
    by code_simp
  have i: "ex2_st1 = foldl (greedy_step ex2_domains) greedy_init [ex2_vA]"
    by code_simp
  have sc: "?sc ?a = 2" "?sc ?b = 1" "?sc ?d = 1"
    by code_simp+
  from fallback_least_conflict [OF h1 h2, where variables = "[ex2_vA, ex2_vB]"
      and ?ws1.0 = "[ex2_vA]" and ?ws2.0 = "[]"]
  obtain pre c post where
    sp: "[?a, ?b, ?d] = pre @ c # post"
    and lt: "\<forall>x\<in>set pre. ?sc c < ?sc x"
    and le: "\<forall>x\<in>set post. ?sc c \<le> ?sc x"
    and st: "greedy_step ex2_domains ex2_st1 ex2_vB =
             \<lparr>assigned = dict_set (assigned ex2_st1) ex2_vB c,
              used_room_ts = insert (c_t c, c_r c) (used_room_ts ex2_st1),
              used_instr_ts = insert (c_t c, c_i c) (used_instr_ts ex2_st1),
              violations = violations ex2_st1 + 1\<rparr>"
    and rb: "dict_get (assigned (greedy_step ex2_domains ex2_st1 ex2_vB)) ex2_vB = Some c"
    and run: "greedy_order [ex2_vA, ex2_vB] = [ex2_vA] @ ex2_vB # [] \<and>
            ex2_st1 = foldl (greedy_step ex2_domains) greedy_init [ex2_vA] \<longrightarrow>
              greedy_assign [ex2_vA, ex2_vB] ex2_domains =
                (assigned (foldl (greedy_step ex2_domains)
                   \<lparr>assigned = dict_set (assigned ex2_st1) ex2_vB c,
                    used_room_ts = insert (c_t c, c_r c) (used_room_ts ex2_st1),
                    used_instr_ts = insert (c_t c, c_i c) (used_instr_ts ex2_st1),
                    violations = violations ex2_st1 + 1\<rparr> []),
                 violations (foldl (greedy_step ex2_domains)
                   \<lparr>assigned = dict_set (assigned ex2_st1) ex2_vB c,
                    used_room_ts = insert (c_t c, c_r c) (used_room_ts ex2_st1),
                    used_instr_ts = insert (c_t c, c_i c) (used_instr_ts ex2_st1),
                    violations = violations ex2_st1 + 1\<rparr> []))"
    unfolding dm by blast
  from sp have "(pre = [] \<and> c = ?a \<and> post = [?b, ?d]) \<or> (pre = [?a] \<and> c = ?b \<and> post = [?d]) \<or>
      (pre = [?a, ?b] \<and> c = ?d \<and> post = [])"
    by (auto simp: Cons_eq_append_conv)
  then have c: "pre = [?a] \<and> c = ?b \<and> post = [?d]"
  proof (elim disjE)
    assume x: "pre = [] \<and> c = ?a \<and> post = [?b, ?d]"
    with le have "?sc ?a \<le> ?sc ?b" by simp
    with sc show ?thesis by simp
  next
    assume "pre = [?a] \<and> c = ?b \<and> post = [?d]"
    then show ?thesis .
  next
    assume x: "pre = [?a, ?b] \<and> c = ?d \<and> post = []"
    with lt have "?sc ?d < ?sc ?b" by simp
    with sc show ?thesis by simp
  qed
  have e: "\<lparr>assigned = dict_set (assigned ex2_st1) ex2_vB ?b,
             used_room_ts = insert (c_t ?b, c_r ?b) (used_room_ts ex2_st1),
             used_instr_ts = insert (c_t ?b, c_i ?b) (used_instr_ts ex2_st1),
             violations = violations ex2_st1 + 1\<rparr> =
           \<lparr>assigned = [(ex2_vA, (''T1'', ''R1'', ''I1'', True)), (ex2_vB, ?b)],
            used_room_ts = {(''T1'', ''R1'')},
            used_instr_ts = {(''T1'', ''I2''), (''T1'', ''I1'')},
            violations = 1\<rparr>"
    by code_simp
  from c have ceq: "c = ?b" by simp
  note st' = st [unfolded ceq e]
  have ev: "greedy_step ex2_domains ex2_st1 ex2_vB =
      \<lparr>assigned = [(ex2_vA, (''T1'', ''R1'', ''I1'', True)), (ex2_vB, ?b)],
       used_room_ts = {(''T1'', ''R1'')},
       used_instr_ts = {(''T1'', ''I2''), (''T1'', ''I1'')},
       violations = 1\<rparr>"
    by code_simp
  have rb': "dict_get (assigned (greedy_step ex2_domains ex2_st1 ex2_vB)) ex2_vB = Some ?b"
    using rb ceq by (simp only:)
  from run o i have "greedy_assign [ex2_vA, ex2_vB] ex2_domains =
                (assigned (foldl (greedy_step ex2_domains)
                   \<lparr>assigned = dict_set (assigned ex2_st1) ex2_vB c,
                    used_room_ts = insert (c_t c, c_r c) (used_room_ts ex2_st1),
                    used_instr_ts = insert (c_t c, c_i c) (used_instr_ts ex2_st1),
                    violations = violations ex2_st1 + 1\<rparr> []),
                 violations (foldl (greedy_step ex2_domains)
                   \<lparr>assigned = dict_set (assigned ex2_st1) ex2_vB c,
                    used_room_ts = insert (c_t c, c_r c) (used_room_ts ex2_st1),
                    used_instr_ts = insert (c_t c, c_i c) (used_instr_ts ex2_st1),
                    violations = violations ex2_st1 + 1\<rparr> []))"
    by blast
  note run' = this [unfolded ceq e]
  have ga: "greedy_assign [ex2_vA, ex2_vB] ex2_domains =
       ([(ex2_vA, (''T1'', ''R1'', ''I1'', True)), (ex2_vB, ?b)], 1)"
    using run' by simp
  from c dm i [symmetric] st' ev rb' ga show ?thesis
    by (simp del: split_paired_All split_paired_Ex)
qed

text \<open>The empty-domain branch of \<open>timetable.py\<close>.\<close>

lemma py_choice_nonempty:
  "xs \<noteq> [] \<Longrightarrow> \<exists>x. py_choice r xs = Inr x \<and> x \<in> set xs"
  by (simp add: py_choice_def)

lemma py_choice_empty: "py_choice r [] = Inl IndexError"
  by (simp add: py_choice_def)

lemma id_get_set:
  "id_get (id_set d v x) w = (if fst w = fst v then Some x else id_get d w)"
  by (induction d) auto

lemma tt_pick_empty_ok:
  assumes "timeslots \<noteq> []" and "rooms \<noteq> []" and "instructors \<noteq> []"
  shows "\<exists>t r i. tt_pick_chosen rnd instructors rooms timeslots ur ui [] k = Inr ((t, r, i, False), k + 3) \<and>
           t \<in> set timeslots \<and> r \<in> fst ` set rooms \<and> i \<in> fst ` set instructors"
proof -
  from assms(1) obtain t where t: "py_choice (rnd k) timeslots = Inr t" "t \<in> set timeslots"
    using py_choice_nonempty by blast
  from assms(2) obtain r where r: "py_choice (rnd (k + 1)) (map fst rooms) = Inr r" "r \<in> fst ` set rooms"
    using py_choice_nonempty [of "map fst rooms" "rnd (k + 1)"] by auto
  from assms(3) obtain i where i: "py_choice (rnd (k + 2)) (map fst instructors) = Inr i"
      "i \<in> fst ` set instructors"
    using py_choice_nonempty [of "map fst instructors" "rnd (k + 2)"] by auto
  show ?thesis
    using t r i by (auto simp: tt_pick_chosen_def)
qed

lemma tt_pick_empty_err:
  assumes "timeslots = [] \<or> rooms = [] \<or> instructors = []"
  shows "tt_pick_chosen rnd instructors rooms timeslots ur ui [] k = Inl IndexError"
  using assms
  by (auto simp: tt_pick_chosen_def py_choice_def split: sum.splits)

lemma tt_pick_error:
  "tt_pick_chosen rnd instructors rooms timeslots ur ui dm k = Inl e \<Longrightarrow>
     e = IndexError \<and> dm = [] \<and> (timeslots = [] \<or> rooms = [] \<or> instructors = [])"
  by (auto simp: tt_pick_chosen_def py_choice_def Let_def split: option.splits if_splits sum.splits)

lemma tt_step_empty_ok:
  assumes "id_get_or domains v [] = []"
      and "timeslots \<noteq> []" and "rooms \<noteq> []" and "instructors \<noteq> []"
  shows "\<exists>t r i. tt_greedy_step rnd domains instructors rooms timeslots st v =
           Inr \<lparr>tt_assigned = id_set (tt_assigned st) v (t, r, i, False),
                tt_used_room_ts = insert (t, r) (tt_used_room_ts st),
                tt_used_instr_ts = insert (t, i) (tt_used_instr_ts st),
                draws = draws st + 3\<rparr> \<and>
           t \<in> set timeslots \<and> r \<in> fst ` set rooms \<and> i \<in> fst ` set instructors"
proof -
  from tt_pick_empty_ok [OF assms(2,3,4), of rnd "tt_used_room_ts st" "tt_used_instr_ts st" "draws st"]
  obtain t r i where
    p: "tt_pick_chosen rnd instructors rooms timeslots (tt_used_room_ts st) (tt_used_instr_ts st) []
          (draws st) = Inr ((t, r, i, False), draws st + 3)"
    and m: "t \<in> set timeslots" "r \<in> fst ` set rooms" "i \<in> fst ` set instructors"
    by blast
  have "tt_greedy_step rnd domains instructors rooms timeslots st v =
           Inr \<lparr>tt_assigned = id_set (tt_assigned st) v (t, r, i, False),
                tt_used_room_ts = insert (t, r) (tt_used_room_ts st),
                tt_used_instr_ts = insert (t, i) (tt_used_instr_ts st),
                draws = draws st + 3\<rparr>"
    by (simp add: tt_greedy_step_def assms(1) p c_t_def c_r_def c_i_def)
  with m show ?thesis by blast
qed

lemma tt_step_empty_err:
  assumes "id_get_or domains v [] = []"
      and "timeslots = [] \<or> rooms = [] \<or> instructors = []"
  shows "tt_greedy_step rnd domains instructors rooms timeslots st v = Inl IndexError"
  by (simp add: tt_greedy_step_def assms(1) tt_pick_empty_err [OF assms(2)])

lemma tt_step_error:
  "tt_greedy_step rnd domains instructors rooms timeslots st v = Inl e \<Longrightarrow>
     e = IndexError \<and> (timeslots = [] \<or> rooms = [] \<or> instructors = [])"
  using tt_pick_error [of rnd instructors rooms timeslots "tt_used_room_ts st" "tt_used_instr_ts st"
      "id_get_or domains v []" "draws st" e]
  by (auto simp: tt_greedy_step_def Let_def split: sum.splits)

lemma tt_step_other:
  assumes "tt_greedy_step rnd domains instructors rooms timeslots st w = Inr st'"
      and "fst w \<noteq> fst v"
  shows "id_get (tt_assigned st') v = id_get (tt_assigned st) v"
  using assms by (auto simp: tt_greedy_step_def Let_def id_get_set split: sum.splits)

lemma id_get_or_cong: "fst w = fst v \<Longrightarrow> id_get_or d w x = id_get_or d v x"
  by (induction d) (auto simp: id_get_or_def)

lemma tt_step_same:
  assumes e: "id_get_or domains v [] = []"
      and ne: "timeslots \<noteq> []" "rooms \<noteq> []" "instructors \<noteq> []"
      and s: "tt_greedy_step rnd domains instructors rooms timeslots st w = Inr st'"
      and w: "fst w = fst v"
  shows "tt_drawn instructors rooms timeslots (id_get (tt_assigned st') v)"
proof -
  from e w have "id_get_or domains w [] = []"
    using id_get_or_cong [OF w, of domains "[]"] by simp
  from tt_step_empty_ok [OF this ne, of rnd st] s obtain t r i where
    "st' = \<lparr>tt_assigned = id_set (tt_assigned st) w (t, r, i, False),
                tt_used_room_ts = insert (t, r) (tt_used_room_ts st),
                tt_used_instr_ts = insert (t, i) (tt_used_instr_ts st),
                draws = draws st + 3\<rparr>"
    and "t \<in> set timeslots" "r \<in> fst ` set rooms" "i \<in> fst ` set instructors"
    by auto
  then show ?thesis
    using w by (auto simp: tt_drawn_def id_get_set)
qed

lemma tt_loop_total:
  assumes ne: "timeslots \<noteq> []" "rooms \<noteq> []" "instructors \<noteq> []"
  shows "\<exists>st'. tt_loop rnd domains instructors rooms timeslots ws st = Inr st'"
proof (induction ws arbitrary: st)
  case Nil
  then show ?case by simp
next
  case (Cons w ws)
  obtain st1 where "tt_greedy_step rnd domains instructors rooms timeslots st w = Inr st1"
    using tt_step_error [of rnd domains instructors rooms timeslots st w] ne
    by (cases "tt_greedy_step rnd domains instructors rooms timeslots st w") auto
  then show ?case using Cons.IH [of st1] by simp
qed

lemma tt_loop_keeps:
  assumes e: "id_get_or domains v [] = []"
      and ne: "timeslots \<noteq> []" "rooms \<noteq> []" "instructors \<noteq> []"
  shows "tt_drawn instructors rooms timeslots (id_get (tt_assigned st) v) \<Longrightarrow>
         tt_loop rnd domains instructors rooms timeslots ws st = Inr st' \<Longrightarrow>
         tt_drawn instructors rooms timeslots (id_get (tt_assigned st') v)"
proof (induction ws arbitrary: st)
  case Nil
  then show ?case by simp
next
  case (Cons w ws)
  from Cons.prems(2) obtain st1 where
    s: "tt_greedy_step rnd domains instructors rooms timeslots st w = Inr st1"
    and l: "tt_loop rnd domains instructors rooms timeslots ws st1 = Inr st'"
    by (auto split: sum.splits)
  have "tt_drawn instructors rooms timeslots (id_get (tt_assigned st1) v)"
  proof (cases "fst w = fst v")
    case True
    from tt_step_same [OF e ne s True] show ?thesis .
  next
    case False
    from tt_step_other [OF s False] Cons.prems(1) show ?thesis by simp
  qed
  from Cons.IH [OF this l] show ?case .
qed

lemma tt_loop_drawn:
  assumes e: "id_get_or domains v [] = []"
      and ne: "timeslots \<noteq> []" "rooms \<noteq> []" "instructors \<noteq> []"
  shows "v \<in> set ws \<Longrightarrow>
         tt_loop rnd domains instructors rooms timeslots ws st = Inr st' \<Longrightarrow>
         tt_drawn instructors rooms timeslots (id_get (tt_assigned st') v)"
proof (induction ws arbitrary: st)
  case Nil
  then show ?case by simp
next
  case (Cons w ws)
  from Cons.prems(2) obtain st1 where
    s: "tt_greedy_step rnd domains instructors rooms timeslots st w = Inr st1"
    and l: "tt_loop rnd domains instructors rooms timeslots ws st1 = Inr st'"
    by (auto split: sum.splits)
  show ?case
  proof (cases "w = v")
    case True
    then have "fst w = fst v" by simp
    from tt_step_same [OF e ne s this]
    have "tt_drawn instructors rooms timeslots (id_get (tt_assigned st1) v)" .
    from tt_loop_keeps [OF e ne this l] show ?thesis .
  next
    case False
    with Cons.prems(1) have "v \<in> set ws" by simp
    from Cons.IH [OF this l] show ?thesis .
  qed
qed

lemma tt_loop_error:
  assumes e: "id_get_or domains v [] = []"
      and em: "timeslots = [] \<or> rooms = [] \<or> instructors = []"
  shows "v \<in> set ws \<Longrightarrow> tt_loop rnd domains instructors rooms timeslots ws st = Inl IndexError"
proof (induction ws arbitrary: st)
  case Nil
  then show ?case by simp
next
  case (Cons w ws)
  show ?case
  proof (cases "tt_greedy_step rnd domains instructors rooms timeslots st w")
    case (Inl err)
    with tt_step_error [OF Inl] show ?thesis by simp
  next
    case (Inr st1)
    have "w \<noteq> v"
      using Inr tt_step_empty_err [OF e em, of rnd st] by auto
    with Cons.prems have "v \<in> set ws" by simp
    from Cons.IH [OF this, of st1] Inr show ?thesis by simp
  qed
qed

lemma tt_assign_empty:
  assumes v: "v \<in> set variables" and e: "id_get_or domains v [] = []"
  shows "(timeslots = [] \<or> rooms = [] \<or> instructors = [] \<longrightarrow>
            tt_greedy_assign rnd variables domains instructors rooms timeslots = Inl IndexError) \<and>
         (timeslots \<noteq> [] \<and> rooms \<noteq> [] \<and> instructors \<noteq> [] \<longrightarrow>
            (\<exists>asg t r i. tt_greedy_assign rnd variables domains instructors rooms timeslots = Inr asg \<and>
               id_get asg v = Some (t, r, i, False) \<and>
               t \<in> set timeslots \<and> r \<in> fst ` set rooms \<and> i \<in> fst ` set instructors))"
proof (intro conjI impI)
  let ?ws = "sort_key (\<lambda>x. - students (snd x)) variables"
  let ?st = "\<lparr>tt_assigned = [], tt_used_room_ts = {}, tt_used_instr_ts = {}, draws = 0\<rparr>"
  have vs: "v \<in> set ?ws" using v by simp
  {
    assume em: "timeslots = [] \<or> rooms = [] \<or> instructors = []"
    from tt_loop_error [OF e em vs, of rnd ?st]
    show "tt_greedy_assign rnd variables domains instructors rooms timeslots = Inl IndexError"
      by (simp add: tt_greedy_assign_def)
  }
  {
    assume ne: "timeslots \<noteq> [] \<and> rooms \<noteq> [] \<and> instructors \<noteq> []"
    then have n: "timeslots \<noteq> []" "rooms \<noteq> []" "instructors \<noteq> []" by simp_all
    from tt_loop_total [OF n, of rnd domains ?ws ?st] obtain st' where
      l: "tt_loop rnd domains instructors rooms timeslots ?ws ?st = Inr st'" by blast
    from tt_loop_drawn [OF e n vs l]
    have "tt_drawn instructors rooms timeslots (id_get (tt_assigned st') v)" .
    moreover have "tt_greedy_assign rnd variables domains instructors rooms timeslots =
        Inr (tt_assigned st')"
      using l by (simp add: tt_greedy_assign_def)
    ultimately show "\<exists>asg t r i. tt_greedy_assign rnd variables domains instructors rooms timeslots = Inr asg \<and>
               id_get asg v = Some (t, r, i, False) \<and>
               t \<in> set timeslots \<and> r \<in> fst ` set rooms \<and> i \<in> fst ` set instructors"
      unfolding tt_drawn_def by blast
  }
qed

text \<open>
  Claim C3, as amended. For a session whose domain is empty neither \<open>greedy_assign\<close>
  raises an error that names the session; each commits a tuple that it makes up.
  In \<open>test.py\<close> the loop body raises nothing: it commits the tuple
  \<open>("ts0", "room0", "instr0", False)\<close>, adds its pairs to the occupancy sets and raises the
  violation counter by one; the assignment returned maps the session to that tuple and
  the returned count is at least one. In \<open>timetable.py\<close> the loop body draws a timeslot,
  a room id and an instructor id with \<open>random.choice\<close> and commits them with the flag
  \<open>False\<close>, whatever the draws are, and the assignment returned maps the session to such a
  tuple; when the timeslot list, the rooms table or the instructors table is empty,
  \<open>random.choice\<close> raises \<open>IndexError\<close> and so does the run.
\<close>

theorem empty_domain_synthetic:
  assumes "v \<in> set variables" and "dict_get_or domains v [] = []"
      and "tv \<in> set tt_variables" and "id_get_or tt_domains tv [] = []"
  shows "greedy_step domains st v =
           \<lparr>assigned = dict_set (assigned st) v (''ts0'', ''room0'', ''instr0'', False),
            used_room_ts = insert (''ts0'', ''room0'') (used_room_ts st),
            used_instr_ts = insert (''ts0'', ''instr0'') (used_instr_ts st),
            violations = violations st + 1\<rparr> \<and>
         dict_get (fst (greedy_assign variables domains)) v =
           Some (''ts0'', ''room0'', ''instr0'', False) \<and>
         1 \<le> snd (greedy_assign variables domains) \<and>
         (timeslots = [] \<or> rooms = [] \<or> instructors = [] \<longrightarrow>
            tt_greedy_step rnd tt_domains instructors rooms timeslots tst tv = Inl IndexError \<and>
            tt_greedy_assign rnd tt_variables tt_domains instructors rooms timeslots =
              Inl IndexError) \<and>
         (timeslots \<noteq> [] \<and> rooms \<noteq> [] \<and> instructors \<noteq> [] \<longrightarrow>
            (\<exists>t r i. tt_greedy_step rnd tt_domains instructors rooms timeslots tst tv =
               Inr \<lparr>tt_assigned = id_set (tt_assigned tst) tv (t, r, i, False),
                    tt_used_room_ts = insert (t, r) (tt_used_room_ts tst),
                    tt_used_instr_ts = insert (t, i) (tt_used_instr_ts tst),
                    draws = draws tst + 3\<rparr> \<and>
               t \<in> set timeslots \<and> r \<in> fst ` set rooms \<and> i \<in> fst ` set instructors) \<and>
            (\<exists>asg t r i.
               tt_greedy_assign rnd tt_variables tt_domains instructors rooms timeslots = Inr asg \<and>
               id_get asg tv = Some (t, r, i, False) \<and>
               t \<in> set timeslots \<and> r \<in> fst ` set rooms \<and> i \<in> fst ` set instructors))"
proof -
  have "v \<in> set (greedy_order variables)"
    using assms(1) by (simp add: greedy_order_def)
  from greedy_loop_synthetic [OF assms(2) this, of greedy_init]
  have a: "greedy_step domains st v =
           \<lparr>assigned = dict_set (assigned st) v (''ts0'', ''room0'', ''instr0'', False),
            used_room_ts = insert (''ts0'', ''room0'') (used_room_ts st),
            used_instr_ts = insert (''ts0'', ''instr0'') (used_instr_ts st),
            violations = violations st + 1\<rparr> \<and>
         dict_get (fst (greedy_assign variables domains)) v =
           Some (''ts0'', ''room0'', ''instr0'', False) \<and>
         1 \<le> snd (greedy_assign variables domains)"
    by (simp add: greedy_step_empty [OF assms(2)] greedy_assign_def greedy_run_def Let_def)
  have b: "timeslots = [] \<or> rooms = [] \<or> instructors = [] \<longrightarrow>
            tt_greedy_step rnd tt_domains instructors rooms timeslots tst tv = Inl IndexError \<and>
            tt_greedy_assign rnd tt_variables tt_domains instructors rooms timeslots =
              Inl IndexError"
    using tt_step_empty_err [OF assms(4), of timeslots rooms instructors rnd tst]
      tt_assign_empty [OF assms(3,4), of timeslots rooms instructors rnd]
    by blast
  have c: "timeslots \<noteq> [] \<and> rooms \<noteq> [] \<and> instructors \<noteq> [] \<longrightarrow>
            (\<exists>t r i. tt_greedy_step rnd tt_domains instructors rooms timeslots tst tv =
               Inr \<lparr>tt_assigned = id_set (tt_assigned tst) tv (t, r, i, False),
                    tt_used_room_ts = insert (t, r) (tt_used_room_ts tst),
                    tt_used_instr_ts = insert (t, i) (tt_used_instr_ts tst),
                    draws = draws tst + 3\<rparr> \<and>
               t \<in> set timeslots \<and> r \<in> fst ` set rooms \<and> i \<in> fst ` set instructors) \<and>
            (\<exists>asg t r i.
               tt_greedy_assign rnd tt_variables tt_domains instructors rooms timeslots = Inr asg \<and>
               id_get asg tv = Some (t, r, i, False) \<and>
               t \<in> set timeslots \<and> r \<in> fst ` set rooms \<and> i \<in> fst ` set instructors)"
    using tt_step_empty_ok [OF assms(4), of timeslots rooms instructors rnd tst]
      tt_assign_empty [OF assms(3,4), of timeslots rooms instructors rnd]
    by blast
  from a b c show ?thesis by blast
qed

theorem empty_domain_synthetic_witness:
  "greedy_step [(ex_v9, [])] greedy_init ex_v9 =
     \<lparr>assigned = [(ex_v9, (''ts0'', ''room0'', ''instr0'', False))],
      used_room_ts = {(''ts0'', ''room0'')},
      used_instr_ts = {(''ts0'', ''instr0'')},
      violations = 1\<rparr> \<and>
   dict_get (fst (greedy_assign [ex_v9] [(ex_v9, [])])) ex_v9 =
     Some (''ts0'', ''room0'', ''instr0'', False) \<and>
   1 \<le> snd (greedy_assign [ex_v9] [(ex_v9, [])]) \<and>
   tt_greedy_step (\<lambda>k. 0) [((0, ex_v9), [])] ex_instructors [] [''T1'']
     \<lparr>tt_assigned = [], tt_used_room_ts = {}, tt_used_instr_ts = {}, draws = 0\<rparr> (0, ex_v9) =
     Inl IndexError \<and>
   tt_greedy_assign (\<lambda>k. 0) [(0, ex_v9)] [((0, ex_v9), [])] ex_instructors [] [''T1''] =
     Inl IndexError \<and>
   tt_greedy_step (\<lambda>k. 0) [((0, ex_v9), [])] ex_instructors ex_small_rooms [''T1'']
     \<lparr>tt_assigned = [], tt_used_room_ts = {}, tt_used_instr_ts = {}, draws = 0\<rparr> (0, ex_v9) =
     Inr \<lparr>tt_assigned = [((0, ex_v9), (''T1'', ''R1'', ''I1'', False))],
          tt_used_room_ts = {(''T1'', ''R1'')}, tt_used_instr_ts = {(''T1'', ''I1'')},
          draws = 3\<rparr> \<and>
   (\<exists>asg. tt_greedy_assign (\<lambda>k. 0) [(0, ex_v9)] [((0, ex_v9), [])] ex_instructors
             ex_small_rooms [''T1''] = Inr asg \<and>
           id_get asg (0, ex_v9) = Some (''T1'', ''R1'', ''I1'', False))"
proof -
  have h1: "ex_v9 \<in> set [ex_v9]"
    by simp
  have h2: "dict_get_or [(ex_v9, [])] ex_v9 [] = []"
    by code_simp
  have h3: "(0, ex_v9) \<in> set [(0::nat, ex_v9)]"
    by simp
  have h4: "id_get_or [((0, ex_v9), [])] (0, ex_v9) [] = []"
    by code_simp
  let ?t0 = "\<lparr>tt_assigned = [], tt_used_room_ts = {}, tt_used_instr_ts = {}, draws = 0\<rparr>"
  note e1 = empty_domain_synthetic [OF h1 h2 h3 h4, where st = greedy_init and tst = ?t0
      and rnd = "\<lambda>k. 0" and timeslots = "[''T1'']" and rooms = "[]" and instructors = ex_instructors]
  note e2 = empty_domain_synthetic [OF h1 h2 h3 h4, where st = greedy_init and tst = ?t0
      and rnd = "\<lambda>k. 0" and timeslots = "[''T1'']" and rooms = ex_small_rooms
      and instructors = ex_instructors]
  have n: "[''T1''] \<noteq> [] \<and> ex_small_rooms \<noteq> [] \<and> ex_instructors \<noteq> []"
    by (simp add: ex_small_rooms_def ex_instructors_def)
  have s: "set [''T1''] = {''T1''}" "fst ` set ex_small_rooms = {''R1''}"
      "fst ` set ex_instructors = {''I1''}"
    by (simp_all add: ex_small_rooms_def ex_instructors_def)
  from e1 have p1: "greedy_step [(ex_v9, [])] greedy_init ex_v9 =
     \<lparr>assigned = [(ex_v9, (''ts0'', ''room0'', ''instr0'', False))],
      used_room_ts = {(''ts0'', ''room0'')},
      used_instr_ts = {(''ts0'', ''instr0'')},
      violations = 1\<rparr>"
    by (simp add: greedy_init_def)
  from e1 have p2: "dict_get (fst (greedy_assign [ex_v9] [(ex_v9, [])])) ex_v9 =
     Some (''ts0'', ''room0'', ''instr0'', False) \<and>
     1 \<le> snd (greedy_assign [ex_v9] [(ex_v9, [])])"
    by blast
  from e1 have p3: "tt_greedy_step (\<lambda>k. 0) [((0, ex_v9), [])] ex_instructors [] [''T1''] ?t0 (0, ex_v9) =
     Inl IndexError \<and>
     tt_greedy_assign (\<lambda>k. 0) [(0, ex_v9)] [((0, ex_v9), [])] ex_instructors [] [''T1''] =
     Inl IndexError"
    by blast
  from e2 n s have p4: "tt_greedy_step (\<lambda>k. 0) [((0, ex_v9), [])] ex_instructors ex_small_rooms [''T1'']
     ?t0 (0, ex_v9) =
     Inr \<lparr>tt_assigned = [((0, ex_v9), (''T1'', ''R1'', ''I1'', False))],
          tt_used_room_ts = {(''T1'', ''R1'')}, tt_used_instr_ts = {(''T1'', ''I1'')},
          draws = 3\<rparr>"
    by auto
  from e2 n s have p5: "\<exists>asg. tt_greedy_assign (\<lambda>k. 0) [(0, ex_v9)] [((0, ex_v9), [])] ex_instructors
             ex_small_rooms [''T1''] = Inr asg \<and>
           id_get asg (0, ex_v9) = Some (''T1'', ''R1'', ''I1'', False)"
    by auto
  from p1 p2 p3 p4 p5 show ?thesis by blast
qed

text \<open>
  A section of ten students and one course. With no room in the tables, or with the one
  room of capacity 5, the domain of the only session is empty. \<open>greedy_assign\<close> of
  \<open>test.py\<close> returns normally with the synthetic tuple committed; \<open>greedy_assign\<close> of
  \<open>timetable.py\<close> commits the room that is too small, and with no room it raises
  \<open>IndexError\<close>.
\<close>

theorem empty_domain_synthetic_counterexample:
  "build_vars_domains [''C9'' \<mapsto> \<lparr>cname = ''Seminar'', ctype = ''lab''\<rparr>] ex_instructors []
     [''T1''] ex_sections [1 \<mapsto> [''C9'']] = ([ex_v9], [(ex_v9, [])]) \<and>
   greedy_assign [ex_v9] [(ex_v9, [])] =
     ([(ex_v9, (''ts0'', ''room0'', ''instr0'', False))], 1) \<and>
   build_vars_domains [''C9'' \<mapsto> \<lparr>cname = ''Seminar'', ctype = ''lab''\<rparr>] ex_instructors
     ex_small_rooms [''T1''] ex_sections [1 \<mapsto> [''C9'']] = ([ex_v9], [(ex_v9, [])]) \<and>
   tt_greedy_assign (\<lambda>k. 0) [(0, ex_v9)] [((0, ex_v9), [])] ex_instructors ex_small_rooms
     [''T1''] = Inr [((0, ex_v9), (''T1'', ''R1'', ''I1'', False))] \<and>
   tt_greedy_assign (\<lambda>k. 0) [(0, ex_v9)] [((0, ex_v9), [])] ex_instructors [] [''T1''] =
     Inl IndexError"
  by code_simp

section \<open>Dicts: keys, items and updates\<close>

lemma dict_keys_Cons: "dict_keys ((k, y) # d) = name k # dict_keys d"
  by (simp add: dict_keys_def)

lemma dict_keys_Nil: "dict_keys [] = []"
  by (simp add: dict_keys_def)

lemma dict_keys_mem: "(k, y) \<in> set d \<Longrightarrow> name k \<in> set (dict_keys d)"
  by (force simp: dict_keys_def)

lemma dict_keys_set:
  "dict_keys (dict_set d v x) =
     (if name v \<in> set (dict_keys d) then dict_keys d else dict_keys d @ [name v])"
proof (induction d)
  case Nil
  then show ?case by (simp add: dict_keys_def)
next
  case (Cons e d)
  obtain k y where e: "e = (k, y)" by (cases e)
  show ?case
    using Cons.IH by (simp add: e dict_keys_Cons)
qed

lemma dict_get_None_iff: "dict_get d v = None \<longleftrightarrow> name v \<notin> set (dict_keys d)"
proof (induction d)
  case Nil
  then show ?case by (simp add: dict_keys_def)
next
  case (Cons e d)
  obtain k y where e: "e = (k, y)" by (cases e)
  show ?case
    using Cons.IH by (auto simp: e dict_keys_Cons)
qed

lemma dict_get_entry: "dict_get d v = Some x \<Longrightarrow> \<exists>k. (k, x) \<in> set d \<and> name k = name v"
  by (induction d) (auto split: if_splits)

lemma dict_entry_get:
  "distinct (dict_keys d) \<Longrightarrow> (k, x) \<in> set d \<Longrightarrow> dict_get d k = Some x"
proof (induction d)
  case Nil
  then show ?case by simp
next
  case (Cons e d)
  obtain k' y' where e: "e = (k', y')" by (cases e)
  from Cons.prems(1) have nk: "name k' \<notin> set (dict_keys d)" and dd: "distinct (dict_keys d)"
    by (simp_all add: e dict_keys_Cons)
  show ?case
  proof (cases "(k, x) = (k', y')")
    case True
    then show ?thesis by (simp add: e)
  next
    case False
    with Cons.prems(2) have m: "(k, x) \<in> set d" by (auto simp: e)
    then have "name k \<in> set (dict_keys d)" by (rule dict_keys_mem)
    with nk have "name k' \<noteq> name k" by auto
    then show ?thesis using Cons.IH [OF dd m] by (simp add: e)
  qed
qed

lemma set_dict_set_weak:
  "(k, y) \<in> set (dict_set d v x) \<Longrightarrow> (name k = name v \<and> y = x) \<or> (k, y) \<in> set d"
  by (induction d) (auto split: if_splits)

lemma set_dict_set:
  "distinct (dict_keys d) \<Longrightarrow> (k, y) \<in> set (dict_set d v x) \<Longrightarrow>
     (name k = name v \<and> y = x) \<or> ((k, y) \<in> set d \<and> name k \<noteq> name v)"
proof (induction d)
  case Nil
  then show ?case by simp
next
  case (Cons e d)
  obtain k' y' where e: "e = (k', y')" by (cases e)
  from Cons.prems(1) have nk: "name k' \<notin> set (dict_keys d)" and dd: "distinct (dict_keys d)"
    by (simp_all add: e dict_keys_Cons)
  show ?case
  proof (cases "name k' = name v")
    case True
    with Cons.prems(2) have "(k, y) = (k', x) \<or> (k, y) \<in> set d" by (simp add: e)
    then show ?thesis
    proof
      assume "(k, y) = (k', x)"
      with True show ?thesis by simp
    next
      assume m: "(k, y) \<in> set d"
      then have "name k \<in> set (dict_keys d)" by (rule dict_keys_mem)
      with nk True have "name k \<noteq> name v" by auto
      with m show ?thesis by (simp add: e)
    qed
  next
    case False
    with Cons.prems(2) have "(k, y) = (k', y') \<or> (k, y) \<in> set (dict_set d v x)"
      by (simp add: e)
    then show ?thesis
    proof
      assume "(k, y) = (k', y')"
      with False show ?thesis by (simp add: e)
    next
      assume "(k, y) \<in> set (dict_set d v x)"
      from Cons.IH [OF dd this] show ?thesis by (auto simp: e)
    qed
  qed
qed

lemma map_fst_dict_set:
  "map fst (dict_set d v x) =
     (if name v \<in> set (dict_keys d) then map fst d else map fst d @ [v])"
proof (induction d)
  case Nil
  then show ?case by (simp add: dict_keys_def)
next
  case (Cons e d)
  obtain k y where e: "e = (k, y)" by (cases e)
  show ?case
    using Cons.IH by (simp add: e dict_keys_Cons)
qed

lemma dict_set_fst: "fst ` set (dict_set d v x) \<subseteq> insert v (fst ` set d)"
proof -
  have "set (map fst (dict_set d v x)) \<subseteq> insert v (set (map fst d))"
    unfolding map_fst_dict_set by auto
  then show ?thesis by simp
qed

lemma dict_filter_key:
  "distinct (dict_keys d) \<Longrightarrow> (k, x) \<in> set d \<Longrightarrow>
     filter (\<lambda>e. name (fst e) = name k) d = [(k, x)]"
proof (induction d)
  case Nil
  then show ?case by simp
next
  case (Cons e d)
  obtain k' y' where e: "e = (k', y')" by (cases e)
  from Cons.prems(1) have nk: "name k' \<notin> set (dict_keys d)" and dd: "distinct (dict_keys d)"
    by (simp_all add: e dict_keys_Cons)
  show ?case
  proof (cases "(k, x) = (k', y')")
    case True
    have "name (fst e') \<noteq> name k'" if "e' \<in> set d" for e'
    proof -
      from that have "(fst e', snd e') \<in> set d" by simp
      then have "name (fst e') \<in> set (dict_keys d)" by (rule dict_keys_mem)
      with nk show ?thesis by auto
    qed
    then have "filter (\<lambda>e. name (fst e) = name k') d = []"
      by (simp add: filter_empty_conv)
    with True show ?thesis by (simp add: e)
  next
    case False
    with Cons.prems(2) have m: "(k, x) \<in> set d" by (auto simp: e)
    then have "name k \<in> set (dict_keys d)" by (rule dict_keys_mem)
    with nk have "name k' \<noteq> name k" by auto
    then show ?thesis using Cons.IH [OF dd m] by (simp add: e)
  qed
qed

lemma qualified_count_set:
  "c_q x \<Longrightarrow> qualified_count d \<le> qualified_count (dict_set d v x)"
  by (induction d) (auto simp: qualified_count_def)

lemma distinct_dict_set: "distinct (dict_keys d) \<Longrightarrow> distinct (dict_keys (dict_set d v x))"
  by (simp add: dict_keys_set)

lemma covered_dict_set:
  assumes "covered d rts its"
  shows "covered (dict_set d v c) (insert (room_pair c) rts) (insert (instr_pair c) its)"
  unfolding covered_def
proof
  fix e assume "e \<in> set (dict_set d v c)"
  then have "(fst e, snd e) \<in> set (dict_set d v c)" by simp
  from set_dict_set_weak [OF this] have "snd e = c \<or> e \<in> set d" by auto
  then show "room_pair (snd e) \<in> insert (room_pair c) rts \<and>
             instr_pair (snd e) \<in> insert (instr_pair c) its"
    using assms by (auto simp: covered_def)
qed

lemma apart_dict_set_free:
  assumes "apart d" and "covered d rts its"
      and "room_pair c \<notin> rts" and "instr_pair c \<notin> its"
  shows "apart (dict_set d v c)"
  unfolding apart_def
proof (intro ballI impI)
  fix e1 e2
  assume m1: "e1 \<in> set (dict_set d v c)" and m2: "e2 \<in> set (dict_set d v c)"
    and ne: "name (fst e1) \<noteq> name (fst e2)"
  from m1 have "(fst e1, snd e1) \<in> set (dict_set d v c)" by simp
  from set_dict_set_weak [OF this]
  have c1: "(name (fst e1) = name v \<and> snd e1 = c) \<or> e1 \<in> set d" by simp
  from m2 have "(fst e2, snd e2) \<in> set (dict_set d v c)" by simp
  from set_dict_set_weak [OF this]
  have c2: "(name (fst e2) = name v \<and> snd e2 = c) \<or> e2 \<in> set d" by simp
  have old: "e \<in> set d \<Longrightarrow> room_pair (snd e) \<noteq> room_pair c \<and> instr_pair (snd e) \<noteq> instr_pair c" for e
    using assms(2,3,4) by (auto simp: covered_def)
  show "room_pair (snd e1) \<noteq> room_pair (snd e2) \<and> instr_pair (snd e1) \<noteq> instr_pair (snd e2)"
  proof (cases "e1 \<in> set d")
    case True
    note e1d = this
    show ?thesis
    proof (cases "e2 \<in> set d")
      case True
      with e1d ne assms(1) show ?thesis by (simp add: apart_def)
    next
      case False
      with c2 have "snd e2 = c" by simp
      with old [OF e1d] show ?thesis by simp
    qed
  next
    case False
    with c1 have n1: "name (fst e1) = name v" and s1: "snd e1 = c" by simp_all
    from c2 ne n1 have "e2 \<in> set d" by auto
    from old [OF this] s1 show ?thesis by metis
  qed
qed

lemma apart_lookup:
  assumes "apart d" and "dict_get d v = Some c" and "dict_get d w = Some c'"
      and "name v \<noteq> name w"
  shows "room_pair c \<noteq> room_pair c' \<and> instr_pair c \<noteq> instr_pair c'"
proof -
  from dict_get_entry [OF assms(2)] obtain k where k: "(k, c) \<in> set d" "name k = name v"
    by blast
  from dict_get_entry [OF assms(3)] obtain k' where k': "(k', c') \<in> set d" "name k' = name w"
    by blast
  from assms(1) k k' assms(4) show ?thesis
    unfolding apart_def by force
qed

section \<open>Invariants of the greedy loop\<close>

lemma pick_chosen_zero:
  "snd (pick_chosen ur ui dm n) = 0 \<Longrightarrow>
     n = 0 \<and> first_free ur ui (filter (\<lambda>d. c_q d) dm @ filter (\<lambda>d. \<not> c_q d) dm) =
               Some (fst (pick_chosen ur ui dm n))"
  by (auto simp: pick_chosen_def Let_def split: option.splits)

lemma pick_chosen_mem:
  "fst (pick_chosen ur ui dm n) \<in> set dm \<or> dm = []"
proof (cases "dm = []")
  case True
  then show ?thesis by simp
next
  case False
  show ?thesis
  proof (cases "first_free ur ui (filter (\<lambda>d. c_q d) dm @ filter (\<lambda>d. \<not> c_q d) dm)")
    case None
    from fallback_best [OF False, of ur ui] obtain pre c post where
      "dm = pre @ c # post" "fst (fallback_scan ur ui dm (None, 1000000000)) = Some c" by blast
    with pick_chosen_fallback [OF None this(2), of n] show ?thesis by simp
  next
    case (Some c)
    from first_free_Some_mem [OF Some] have "c \<in> set dm" by auto
    with pick_chosen_first [OF Some, of n] show ?thesis by simp
  qed
qed

lemma greedy_step_inv:
  assumes "greedy_inv st"
  shows "greedy_inv (greedy_step domains st v)"
proof -
  let ?dm = "dict_get_or domains v []"
  let ?cv = "pick_chosen (used_room_ts st) (used_instr_ts st) ?dm (violations st)"
  let ?c = "fst ?cv"
  have step: "greedy_step domains st v =
      \<lparr>assigned = dict_set (assigned st) v ?c,
       used_room_ts = insert (room_pair ?c) (used_room_ts st),
       used_instr_ts = insert (instr_pair ?c) (used_instr_ts st),
       violations = snd ?cv\<rparr>"
    by (simp add: greedy_step_def Let_def room_pair_def instr_pair_def)
  from assms have cov: "covered (assigned st) (used_room_ts st) (used_instr_ts st)"
    and dis: "distinct (dict_keys (assigned st))"
    and ap: "violations st = 0 \<longrightarrow> apart (assigned st)"
    by (simp_all add: greedy_inv_def)
  have "snd ?cv = 0 \<longrightarrow> apart (dict_set (assigned st) v ?c)"
  proof
    assume z: "snd ?cv = 0"
    from pick_chosen_zero [OF z] have v0: "violations st = 0"
      and ff: "first_free (used_room_ts st) (used_instr_ts st)
                 (filter (\<lambda>d. c_q d) ?dm @ filter (\<lambda>d. \<not> c_q d) ?dm) = Some ?c"
      by simp_all
    from first_free_Some_mem [OF ff] have "\<not> blocked (used_room_ts st) (used_instr_ts st) ?c"
      by simp
    then have "room_pair ?c \<notin> used_room_ts st" "instr_pair ?c \<notin> used_instr_ts st"
      by (simp_all add: blocked_def room_pair_def instr_pair_def)
    with ap v0 cov show "apart (dict_set (assigned st) v ?c)"
      by (simp add: apart_dict_set_free)
  qed
  then show ?thesis
    unfolding step greedy_inv_def
    using covered_dict_set [OF cov] distinct_dict_set [OF dis] by simp
qed

lemma greedy_loop_inv:
  "greedy_inv st \<Longrightarrow> greedy_inv (foldl (greedy_step domains) st ws)"
  by (induction ws arbitrary: st) (simp_all add: greedy_step_inv)

lemma greedy_init_inv: "greedy_inv greedy_init"
  by (simp add: greedy_inv_def greedy_init_def covered_def apart_def dict_keys_def)

lemma greedy_assign_apart:
  assumes "greedy_assign variables domains = (asg, 0)"
  shows "distinct (dict_keys asg) \<and> apart asg"
proof -
  have "greedy_inv (greedy_run variables domains)"
    unfolding greedy_run_def by (rule greedy_loop_inv [OF greedy_init_inv])
  moreover from assms have "assigned (greedy_run variables domains) = asg"
    "violations (greedy_run variables domains) = 0"
    by (simp_all add: greedy_assign_def Let_def)
  ultimately show ?thesis by (auto simp: greedy_inv_def)
qed

lemma greedy_step_from_domain:
  assumes "from_domain domains (assigned st)"
  shows "from_domain domains (assigned (greedy_step domains st w))"
  unfolding from_domain_def
proof (intro allI impI)
  fix v c
  assume g: "dict_get (assigned (greedy_step domains st w)) v = Some c"
  let ?x = "fst (pick_chosen (used_room_ts st) (used_instr_ts st) (dict_get_or domains w [])
                   (violations st))"
  have a: "assigned (greedy_step domains st w) = dict_set (assigned st) w ?x"
    by (simp add: greedy_step_def Let_def)
  show "c \<in> set (dict_get_or domains v []) \<or> dict_get_or domains v [] = []"
  proof (cases "name w = name v")
    case True
    with g have "c = ?x" unfolding a by (simp add: dict_get_set)
    moreover have "dict_get_or domains w [] = dict_get_or domains v []"
      by (rule dict_get_or_name_cong [OF True])
    ultimately show ?thesis
      using pick_chosen_mem [of "used_room_ts st" "used_instr_ts st" "dict_get_or domains w []"
          "violations st"] by simp
  next
    case False
    with g have "dict_get (assigned st) v = Some c" unfolding a by (simp add: dict_get_set)
    with assms show ?thesis unfolding from_domain_def by blast
  qed
qed

lemma greedy_loop_from_domain:
  "from_domain domains (assigned st) \<Longrightarrow>
   from_domain domains (assigned (foldl (greedy_step domains) st ws))"
  by (induction ws arbitrary: st) (simp_all add: greedy_step_from_domain)

lemma greedy_step_keys:
  "set (dict_keys (assigned (greedy_step domains st w))) =
     insert (name w) (set (dict_keys (assigned st)))"
  by (auto simp: greedy_step_def Let_def dict_keys_set)

lemma greedy_loop_keys:
  "set (dict_keys (assigned (foldl (greedy_step domains) st ws))) =
     set (dict_keys (assigned st)) \<union> name ` set ws"
  by (induction ws arbitrary: st) (auto simp: greedy_step_keys)

lemma greedy_assign_keys:
  "greedy_assign variables domains = (asg, viol) \<Longrightarrow>
     set (dict_keys asg) = name ` set variables \<and> distinct (dict_keys asg) \<and>
     from_domain domains asg"
proof -
  assume a: "greedy_assign variables domains = (asg, viol)"
  then have asg: "asg = assigned (foldl (greedy_step domains) greedy_init (greedy_order variables))"
    by (auto simp: greedy_assign_def greedy_run_def Let_def)
  have "set (dict_keys asg) = name ` set variables"
    unfolding asg greedy_loop_keys
    by (simp add: greedy_init_def dict_keys_def greedy_order_def)
  moreover have "greedy_inv (foldl (greedy_step domains) greedy_init (greedy_order variables))"
    by (rule greedy_loop_inv [OF greedy_init_inv])
  then have "distinct (dict_keys asg)"
    unfolding asg by (simp add: greedy_inv_def)
  moreover have "from_domain domains asg"
    unfolding asg
    by (rule greedy_loop_from_domain) (simp add: greedy_init_def from_domain_def)
  ultimately show ?thesis by simp
qed

lemma greedy_loop_key_objects:
  "fst ` set (assigned (foldl (greedy_step domains) st ws)) \<subseteq> fst ` set (assigned st) \<union> set ws"
proof (induction ws arbitrary: st)
  case Nil
  then show ?case by simp
next
  case (Cons w ws)
  have "fst ` set (assigned (greedy_step domains st w)) \<subseteq> insert w (fst ` set (assigned st))"
    using dict_set_fst by (simp add: greedy_step_def Let_def)
  with Cons.IH [of "greedy_step domains st w"] show ?case by auto
qed

lemma greedy_assign_key_objects:
  assumes "greedy_assign variables domains = (asg, viol)"
  shows "fst ` set asg \<subseteq> set variables"
proof -
  from assms have "asg = assigned (foldl (greedy_step domains) greedy_init (greedy_order variables))"
    by (auto simp: greedy_assign_def greedy_run_def Let_def)
  with greedy_loop_key_objects [of domains greedy_init "greedy_order variables"]
  show ?thesis by (simp add: greedy_init_def greedy_order_def)
qed

section \<open>The improvement loop\<close>

lemma swap_conflict_iff:
  "swap_conflict rts its cur opt \<longleftrightarrow>
     (room_pair opt \<in> rts \<and> room_pair opt \<noteq> room_pair cur) \<or>
     (instr_pair opt \<in> its \<and> instr_pair opt \<noteq> instr_pair cur)"
  unfolding swap_conflict_def Let_def room_pair_def instr_pair_def prod.inject
  by (simp only: if_True if_False split: if_split) blast

lemma improve_scan_found:
  "improve_scan asg v rts its dm = Inr (Some f) \<Longrightarrow>
     f \<in> set dm \<and> c_q f \<and>
     (\<exists>cur. dict_get asg v = Some cur \<and> \<not> swap_conflict rts its cur f)"
proof (induction dm)
  case Nil
  then show ?case by simp
next
  case (Cons d rest)
  show ?case
  proof (cases "c_q d")
    case False
    with Cons.prems have "improve_scan asg v rts its rest = Inr (Some f)" by simp
    from Cons.IH [OF this] show ?thesis by simp
  next
    case True
    note q = this
    show ?thesis
    proof (cases "dict_get asg v")
      case None
      with Cons.prems q show ?thesis by simp
    next
      case (Some cur)
      show ?thesis
      proof (cases "swap_conflict rts its cur d")
        case True
        with Cons.prems q Some have "improve_scan asg v rts its rest = Inr (Some f)" by simp
        from Cons.IH [OF this] show ?thesis by simp
      next
        case False
        with Cons.prems q Some have "f = d" by simp
        with False q Some show ?thesis by simp
      qed
    qed
  qed
qed

lemma improve_scan_total:
  "dict_get asg v = Some cur \<Longrightarrow> \<exists>res. improve_scan asg v rts its dm = Inr res"
  by (induction dm) simp_all

lemma improve_body_cases:
  assumes "dict_get (im_assigned st) v = Some cur"
  shows "improve_body domains st v = Inr (st\<lparr>it := it st + 1\<rparr>) \<or>
         (\<exists>f. f \<in> set (dict_get_or domains v []) \<and> c_q f \<and>
              \<not> swap_conflict (room_ts st) (instr_ts st) cur f \<and>
              improve_body domains st v =
                Inr \<lparr>im_assigned = dict_set (im_assigned st) v f,
                     room_ts = insert (room_pair f) (room_ts st - {room_pair cur}),
                     instr_ts = insert (instr_pair f) (instr_ts st - {instr_pair cur}),
                     improved = improved st + 1,
                     it = it st + 1\<rparr>)"
proof -
  let ?dm = "dict_get_or domains v []"
  from improve_scan_total [OF assms] obtain res where
    res: "improve_scan (im_assigned st) v (room_ts st) (instr_ts st) ?dm = Inr res" by blast
  show ?thesis
  proof (cases res)
    case None
    with res show ?thesis by (simp add: improve_body_def)
  next
    case (Some f)
    with res improve_scan_found [of "im_assigned st" v "room_ts st" "instr_ts st" ?dm f] assms
    have "f \<in> set ?dm" "c_q f" "\<not> swap_conflict (room_ts st) (instr_ts st) cur f"
      by simp_all
    moreover have "improve_body domains st v =
                Inr \<lparr>im_assigned = dict_set (im_assigned st) v f,
                     room_ts = insert (room_pair f) (room_ts st - {room_pair cur}),
                     instr_ts = insert (instr_pair f) (instr_ts st - {instr_pair cur}),
                     improved = improved st + 1,
                     it = it st + 1\<rparr>"
      using res Some assms by (simp add: improve_body_def room_pair_def instr_pair_def)
    ultimately show ?thesis by blast
  qed
qed

lemma improve_swap_inv:
  assumes dis: "distinct (dict_keys d)" and ap: "apart d" and cov: "covered d rts its"
      and cur: "dict_get d v = Some cur" and nc: "\<not> swap_conflict rts its cur f"
  shows "apart (dict_set d v f) \<and>
         covered (dict_set d v f) (insert (room_pair f) (rts - {room_pair cur}))
           (insert (instr_pair f) (its - {instr_pair cur}))"
proof -
  from dict_get_entry [OF cur] obtain k0 where k0: "(k0, cur) \<in> set d" "name k0 = name v"
    by blast
  have other: "room_pair (snd e) \<in> rts \<and> instr_pair (snd e) \<in> its \<and>
               room_pair (snd e) \<noteq> room_pair cur \<and> instr_pair (snd e) \<noteq> instr_pair cur \<and>
               room_pair (snd e) \<noteq> room_pair f \<and> instr_pair (snd e) \<noteq> instr_pair f"
    if m: "e \<in> set d" and n: "name (fst e) \<noteq> name v" for e
  proof -
    from cov m have in1: "room_pair (snd e) \<in> rts" and in2: "instr_pair (snd e) \<in> its"
      by (simp_all add: covered_def)
    from ap m k0 n have ne: "room_pair (snd e) \<noteq> room_pair cur"
        "instr_pair (snd e) \<noteq> instr_pair cur"
      unfolding apart_def by force+
    from nc have "room_pair f \<in> rts \<longrightarrow> room_pair f = room_pair cur"
        and "instr_pair f \<in> its \<longrightarrow> instr_pair f = instr_pair cur"
      by (simp_all add: swap_conflict_iff)
    with in1 in2 ne show ?thesis by metis
  qed
  have split: "(name (fst e) = name v \<and> snd e = f) \<or> (e \<in> set d \<and> name (fst e) \<noteq> name v)"
    if "e \<in> set (dict_set d v f)" for e
  proof -
    from that have "(fst e, snd e) \<in> set (dict_set d v f)" by simp
    from set_dict_set [OF dis this] show ?thesis by simp
  qed
  have "apart (dict_set d v f)"
    unfolding apart_def
  proof (intro ballI impI)
    fix e1 e2
    assume m1: "e1 \<in> set (dict_set d v f)" and m2: "e2 \<in> set (dict_set d v f)"
      and ne: "name (fst e1) \<noteq> name (fst e2)"
    show "room_pair (snd e1) \<noteq> room_pair (snd e2) \<and> instr_pair (snd e1) \<noteq> instr_pair (snd e2)"
    proof (cases "name (fst e1) = name v")
      case True
      with split [OF m1] have s1: "snd e1 = f" by auto
      from True ne split [OF m2] have "e2 \<in> set d \<and> name (fst e2) \<noteq> name v" by auto
      with other [of e2] s1 show ?thesis by metis
    next
      case False
      with split [OF m1] have o1: "e1 \<in> set d" by auto
      show ?thesis
      proof (cases "name (fst e2) = name v")
        case True
        with split [OF m2] have s2: "snd e2 = f" by auto
        with other [OF o1 False] show ?thesis by metis
      next
        case False
        with split [OF m2] have "e2 \<in> set d" by auto
        with o1 ne ap show ?thesis by (simp add: apart_def)
      qed
    qed
  qed
  moreover have "covered (dict_set d v f) (insert (room_pair f) (rts - {room_pair cur}))
           (insert (instr_pair f) (its - {instr_pair cur}))"
    unfolding covered_def
  proof
    fix e assume "e \<in> set (dict_set d v f)"
    from split [OF this] show "room_pair (snd e) \<in> insert (room_pair f) (rts - {room_pair cur}) \<and>
        instr_pair (snd e) \<in> insert (instr_pair f) (its - {instr_pair cur})"
    proof
      assume "name (fst e) = name v \<and> snd e = f"
      then show ?thesis by simp
    next
      assume "e \<in> set d \<and> name (fst e) \<noteq> name v"
      with other [of e] show ?thesis by simp
    qed
  qed
  ultimately show ?thesis by simp
qed

lemma improve_body_props:
  assumes cur: "dict_get (im_assigned st) v = Some cur"
  shows "\<exists>st'. improve_body domains st v = Inr st' \<and>
           dict_keys (im_assigned st') = dict_keys (im_assigned st) \<and>
           qualified_count (im_assigned st) \<le> qualified_count (im_assigned st') \<and>
           (\<forall>w. name w \<noteq> name v \<longrightarrow> dict_get (im_assigned st') w = dict_get (im_assigned st) w) \<and>
           (dict_get (im_assigned st') v = Some cur \<or>
            (\<exists>f. dict_get (im_assigned st') v = Some f \<and> c_q f \<and>
                 f \<in> set (dict_get_or domains v []))) \<and>
           (improve_inv st \<longrightarrow> improve_inv st')"
proof -
  from cur have key: "name v \<in> set (dict_keys (im_assigned st))"
    using dict_get_None_iff [of "im_assigned st" v] by simp
  from improve_body_cases [OF cur, of domains] show ?thesis
  proof
    assume "improve_body domains st v = Inr (st\<lparr>it := it st + 1\<rparr>)"
    then show ?thesis using cur by (simp add: improve_inv_def)
  next
    assume "\<exists>f. f \<in> set (dict_get_or domains v []) \<and> c_q f \<and>
              \<not> swap_conflict (room_ts st) (instr_ts st) cur f \<and>
              improve_body domains st v =
                Inr \<lparr>im_assigned = dict_set (im_assigned st) v f,
                     room_ts = insert (room_pair f) (room_ts st - {room_pair cur}),
                     instr_ts = insert (instr_pair f) (instr_ts st - {instr_pair cur}),
                     improved = improved st + 1,
                     it = it st + 1\<rparr>"
    then obtain f where f: "f \<in> set (dict_get_or domains v [])" "c_q f"
        "\<not> swap_conflict (room_ts st) (instr_ts st) cur f"
      and body: "improve_body domains st v =
                Inr \<lparr>im_assigned = dict_set (im_assigned st) v f,
                     room_ts = insert (room_pair f) (room_ts st - {room_pair cur}),
                     instr_ts = insert (instr_pair f) (instr_ts st - {instr_pair cur}),
                     improved = improved st + 1,
                     it = it st + 1\<rparr>"
      by blast
    have inv: "improve_inv st \<longrightarrow>
        improve_inv \<lparr>im_assigned = dict_set (im_assigned st) v f,
                     room_ts = insert (room_pair f) (room_ts st - {room_pair cur}),
                     instr_ts = insert (instr_pair f) (instr_ts st - {instr_pair cur}),
                     improved = improved st + 1,
                     it = it st + 1\<rparr>"
    proof
      assume i: "improve_inv st"
      then have "distinct (dict_keys (im_assigned st))" "apart (im_assigned st)"
          "covered (im_assigned st) (room_ts st) (instr_ts st)"
        by (simp_all add: improve_inv_def)
      from improve_swap_inv [OF this cur f(3)] distinct_dict_set [OF this(1)]
      show "improve_inv \<lparr>im_assigned = dict_set (im_assigned st) v f,
                     room_ts = insert (room_pair f) (room_ts st - {room_pair cur}),
                     instr_ts = insert (instr_pair f) (instr_ts st - {instr_pair cur}),
                     improved = improved st + 1,
                     it = it st + 1\<rparr>"
        by (simp add: improve_inv_def)
    qed
    show ?thesis
      unfolding body
      using f(1,2) key inv qualified_count_set [OF f(2), of "im_assigned st" v]
      by (simp add: dict_keys_set dict_get_set del: split_paired_Ex)
  qed
qed

lemma improve_rel_refl: "improve_rel domains ns st st"
  by (simp add: improve_rel_def)

lemma improve_rel_body:
  assumes cur: "dict_get (im_assigned st) v = Some cur"
  shows "\<exists>st'. improve_body domains st v = Inr st' \<and> improve_rel domains {name v} st st'"
proof -
  from improve_body_props [OF cur, of domains] obtain st' where
    b: "improve_body domains st v = Inr st'"
    and k: "dict_keys (im_assigned st') = dict_keys (im_assigned st)"
    and q: "qualified_count (im_assigned st) \<le> qualified_count (im_assigned st')"
    and fr: "\<forall>w. name w \<noteq> name v \<longrightarrow> dict_get (im_assigned st') w = dict_get (im_assigned st) w"
    and ch: "dict_get (im_assigned st') v = Some cur \<or>
            (\<exists>f. dict_get (im_assigned st') v = Some f \<and> c_q f \<and>
                 f \<in> set (dict_get_or domains v []))"
    and inv: "improve_inv st \<longrightarrow> improve_inv st'"
    by blast
  have "dict_get (im_assigned st) w = Some c' \<or>
          (c_q c' \<and> c' \<in> set (dict_get_or domains w []))"
    if g: "dict_get (im_assigned st') w = Some c'" for w c'
  proof (cases "name w = name v")
    case False
    with fr g show ?thesis by simp
  next
    case True
    have e1: "dict_get (im_assigned st') w = dict_get (im_assigned st') v"
      by (rule dict_get_name_cong [OF True])
    have e2: "dict_get (im_assigned st) w = dict_get (im_assigned st) v"
      by (rule dict_get_name_cong [OF True])
    have e3: "dict_get_or domains w [] = dict_get_or domains v []"
      by (rule dict_get_or_name_cong [OF True])
    from ch g show ?thesis
      unfolding e1 e2 e3 using cur by auto
  qed
  with b k q fr inv show ?thesis
    unfolding improve_rel_def by auto
qed

lemma improve_rel_trans:
  assumes a: "improve_rel domains ns1 st st1" and b: "improve_rel domains ns2 st1 st2"
  shows "improve_rel domains (ns1 \<union> ns2) st st2"
proof -
  have k: "dict_keys (im_assigned st2) = dict_keys (im_assigned st)"
    using a b by (simp add: improve_rel_def)
  have q: "qualified_count (im_assigned st) \<le> qualified_count (im_assigned st2)"
    using a b unfolding improve_rel_def by linarith
  have fr: "dict_get (im_assigned st2) w = dict_get (im_assigned st) w"
    if "name w \<notin> ns1 \<union> ns2" for w
  proof -
    from that have "name w \<notin> ns1" "name w \<notin> ns2" by simp_all
    with a b show ?thesis by (simp add: improve_rel_def)
  qed
  have ch: "dict_get (im_assigned st) w = Some c' \<or>
          (c_q c' \<and> c' \<in> set (dict_get_or domains w []))"
    if g: "dict_get (im_assigned st2) w = Some c'" for w c'
  proof -
    from b g have "dict_get (im_assigned st1) w = Some c' \<or>
          (c_q c' \<and> c' \<in> set (dict_get_or domains w []))"
      unfolding improve_rel_def by blast
    then show ?thesis
    proof
      assume "dict_get (im_assigned st1) w = Some c'"
      with a show ?thesis unfolding improve_rel_def by blast
    next
      assume "c_q c' \<and> c' \<in> set (dict_get_or domains w [])"
      then show ?thesis by simp
    qed
  qed
  have inv: "improve_inv st \<longrightarrow> improve_inv st2"
    using a b by (simp add: improve_rel_def)
  show ?thesis
    unfolding improve_rel_def
    using k q fr ch inv by blast
qed

lemma improve_loop_rel:
  assumes "\<forall>v\<in>set ws. name v \<in> set (dict_keys (im_assigned st))"
  shows "\<exists>st'. improve_loop domains mx ws st = Inr st' \<and>
               improve_rel domains (name ` set ws) st st'"
  using assms
proof (induction ws arbitrary: st)
  case Nil
  then show ?case by (simp add: improve_rel_refl)
next
  case (Cons v ws)
  show ?case
  proof (cases "it st < mx")
    case False
    then show ?thesis by (simp add: improve_rel_refl)
  next
    case True
    from Cons.prems have "name v \<in> set (dict_keys (im_assigned st))" by simp
    then obtain cur where cur: "dict_get (im_assigned st) v = Some cur"
      using dict_get_None_iff [of "im_assigned st" v] by auto
    from improve_rel_body [OF cur, of domains] obtain st1 where
      b: "improve_body domains st v = Inr st1" and r1: "improve_rel domains {name v} st st1"
      by blast
    from r1 have "dict_keys (im_assigned st1) = dict_keys (im_assigned st)"
      by (simp add: improve_rel_def)
    with Cons.prems have "\<forall>v\<in>set ws. name v \<in> set (dict_keys (im_assigned st1))" by simp
    from Cons.IH [OF this] obtain st' where
      l: "improve_loop domains mx ws st1 = Inr st'"
      and r2: "improve_rel domains (name ` set ws) st1 st'" by blast
    have "improve_loop domains mx (v # ws) st = Inr st'"
      using True b l by simp
    moreover have "improve_rel domains (name ` set (v # ws)) st st'"
      using improve_rel_trans [OF r1 r2] by simp
    ultimately show ?thesis by blast
  qed
qed

lemma covered_init:
  "covered asg (set (map (\<lambda>(v, val). (c_t val, c_r val)) asg))
     (set (map (\<lambda>(v, val). (c_t val, c_i val)) asg))"
  by (force simp: covered_def room_pair_def instr_pair_def)

lemma unqualified_keys:
  "v \<in> set (unqualified_of asg) \<Longrightarrow> name v \<in> set (dict_keys asg)"
  by (auto simp: unqualified_of_def dict_keys_def)

lemma improve_assignments_rel:
  assumes sh: "is_shuffle shuffle"
  shows "\<exists>asg' n. improve_assignments shuffle asg domains instructors mx = Inr (asg', n) \<and>
           dict_keys asg' = dict_keys asg \<and>
           qualified_count asg \<le> qualified_count asg' \<and>
           (\<forall>w. name w \<notin> name ` set (unqualified_of asg) \<longrightarrow> dict_get asg' w = dict_get asg w) \<and>
           (\<forall>w c'. dict_get asg' w = Some c' \<longrightarrow>
               dict_get asg w = Some c' \<or> (c_q c' \<and> c' \<in> set (dict_get_or domains w []))) \<and>
           (distinct (dict_keys asg) \<and> apart asg \<longrightarrow> apart asg')"
proof -
  let ?ws = "rev (shuffle (unqualified_of asg))"
  let ?st = "\<lparr>im_assigned = asg,
              room_ts = set (map (\<lambda>(v, val). (c_t val, c_r val)) asg),
              instr_ts = set (map (\<lambda>(v, val). (c_t val, c_i val)) asg),
              improved = 0, it = 0\<rparr>"
  from sh have "mset (shuffle (unqualified_of asg)) = mset (unqualified_of asg)"
    by (simp add: is_shuffle_def)
  then have "set (shuffle (unqualified_of asg)) = set (unqualified_of asg)"
    by (rule mset_eq_setD)
  then have ws: "set ?ws = set (unqualified_of asg)" by simp
  then have "\<forall>v\<in>set ?ws. name v \<in> set (dict_keys (im_assigned ?st))"
    by (simp add: unqualified_keys)
  from improve_loop_rel [OF this, of domains mx] obtain st' where
    l: "improve_loop domains mx ?ws ?st = Inr st'"
    and r: "improve_rel domains (name ` set ?ws) ?st st'" by blast
  have res: "improve_assignments shuffle asg domains instructors mx =
      Inr (im_assigned st', improved st')"
    using l by (simp add: improve_assignments_def Let_def)
  have "distinct (dict_keys asg) \<and> apart asg \<longrightarrow> improve_inv ?st"
    using covered_init [of asg] by (simp add: improve_inv_def)
  with r have "distinct (dict_keys asg) \<and> apart asg \<longrightarrow> apart (im_assigned st')"
    by (simp add: improve_rel_def improve_inv_def)
  with r show ?thesis
    unfolding res ws improve_rel_def by simp
qed

lemma qualified_not_in_worklist:
  assumes "distinct (dict_keys asg)" and "dict_get asg v = Some c" and "c_q c"
  shows "name v \<notin> name ` set (unqualified_of asg)"
proof
  assume "name v \<in> name ` set (unqualified_of asg)"
  then obtain k val where m: "(k, val) \<in> set asg" and nq: "\<not> c_q val" and n: "name v = name k"
    by (auto simp: unqualified_of_def)
  from dict_entry_get [OF assms(1) m] have "dict_get asg k = Some val" .
  with dict_get_name_cong [OF n, of asg] assms(2) have "val = c" by simp
  with nq assms(3) show False by simp
qed

text \<open>
  When \<open>greedy_assign\<close> returns the violation count 0, any two sessions with
  different names (the equality of \<open>LectureVar\<close>) that the assignment maps to tuples have
  tuples with different (timeslot, room) pairs and different (timeslot, instructor)
  pairs; \<open>improve_assignments\<close>, run on that assignment with any shuffle and any
  iteration budget, returns (it raises no \<open>KeyError\<close>) an assignment with the same
  property.
\<close>

theorem greedy_improve_no_clash:
  assumes "greedy_assign variables domains = (asg, 0)" and "is_shuffle shuffle"
  shows "(\<forall>v w c c'. dict_get asg v = Some c \<and> dict_get asg w = Some c' \<and> name v \<noteq> name w \<longrightarrow>
            room_pair c \<noteq> room_pair c' \<and> instr_pair c \<noteq> instr_pair c') \<and>
         (\<exists>asg' n. improve_assignments shuffle asg domains instructors max_iters = Inr (asg', n) \<and>
            (\<forall>v w c c'. dict_get asg' v = Some c \<and> dict_get asg' w = Some c' \<and>
               name v \<noteq> name w \<longrightarrow>
               room_pair c \<noteq> room_pair c' \<and> instr_pair c \<noteq> instr_pair c'))"
proof -
  from greedy_assign_apart [OF assms(1)] have d: "distinct (dict_keys asg)" and a: "apart asg"
    by simp_all
  from improve_assignments_rel [OF assms(2), of asg domains instructors max_iters]
  obtain asg' n where
    r: "improve_assignments shuffle asg domains instructors max_iters = Inr (asg', n)"
    and "distinct (dict_keys asg) \<and> apart asg \<longrightarrow> apart asg'" by blast
  with d a have a': "apart asg'" by simp
  from a have "\<forall>v w c c'. dict_get asg v = Some c \<and> dict_get asg w = Some c' \<and> name v \<noteq> name w \<longrightarrow>
            room_pair c \<noteq> room_pair c' \<and> instr_pair c \<noteq> instr_pair c'"
    using apart_lookup by blast
  moreover from a' have "\<forall>v w c c'. dict_get asg' v = Some c \<and> dict_get asg' w = Some c' \<and>
               name v \<noteq> name w \<longrightarrow>
               room_pair c \<noteq> room_pair c' \<and> instr_pair c \<noteq> instr_pair c'"
    using apart_lookup by blast
  ultimately show ?thesis using r by blast
qed

theorem greedy_improve_no_clash_witness:
  "greedy_assign [ex_v 0, ex_v 1] ex_domains = (ex_asg, 0) \<and>
   room_pair (''T1'', ''R1'', ''I1'', True) \<noteq> room_pair (''T2'', ''R1'', ''I1'', True) \<and>
   instr_pair (''T1'', ''R1'', ''I1'', True) \<noteq> instr_pair (''T2'', ''R1'', ''I1'', True) \<and>
   (\<exists>asg' n. improve_assignments (\<lambda>xs. xs) ex_asg ex_domains ex_instructors 5000 = Inr (asg', n))"
proof -
  have h1: "greedy_assign [ex_v 0, ex_v 1] ex_domains = (ex_asg, 0)"
    by code_simp
  have h2: "is_shuffle (\<lambda>xs. xs)"
    by (simp add: is_shuffle_def)
  have g0: "dict_get ex_asg (ex_v 0) = Some (''T1'', ''R1'', ''I1'', True)"
    by code_simp
  have g1: "dict_get ex_asg (ex_v 1) = Some (''T2'', ''R1'', ''I1'', True)"
    by code_simp
  have ne: "name (ex_v 0) \<noteq> name (ex_v 1)"
    by code_simp
  from greedy_improve_no_clash [OF h1 h2, of ex_instructors 5000] g0 g1 ne h1
  show ?thesis by blast
qed

text \<open>
  Claim C1 on the tables with the colliding names. \<open>greedy_assign\<close> returns the violation
  count 0: the session of course \<open>A_B\<close> takes \<open>(T1, R1, I1)\<close>, the session of course \<open>A\<close>
  takes \<open>(T2, R1, I1)\<close> and overwrites the entry of the first, which has the same name.
  The two sessions are different, and the assignment maps both to \<open>(T2, R1, I1)\<close>, the
  same room and the same instructor at the same time, before and after
  \<open>improve_assignments\<close>.
\<close>

theorem colliding_names_share_tuple:
  "build_vars_domains exX_courses ex_instructors exX_rooms [''T1'', ''T2''] exX_sections
     exX_curriculum = ([exX_v1, exX_v2], [(exX_v1, exX_dom)]) \<and>
   exX_v1 \<noteq> exX_v2 \<and>
   greedy_assign [exX_v1, exX_v2] [(exX_v1, exX_dom)] =
     ([(exX_v1, (''T2'', ''R1'', ''I1'', False))], 0) \<and>
   greedy_step [(exX_v1, exX_dom)] greedy_init exX_v1 =
     \<lparr>assigned = [(exX_v1, (''T1'', ''R1'', ''I1'', False))],
      used_room_ts = {(''T1'', ''R1'')}, used_instr_ts = {(''T1'', ''I1'')}, violations = 0\<rparr> \<and>
   dict_get [(exX_v1, (''T2'', ''R1'', ''I1'', False))] exX_v1 =
     Some (''T2'', ''R1'', ''I1'', False) \<and>
   dict_get [(exX_v1, (''T2'', ''R1'', ''I1'', False))] exX_v2 =
     Some (''T2'', ''R1'', ''I1'', False) \<and>
   improve_assignments (\<lambda>xs. xs) [(exX_v1, (''T2'', ''R1'', ''I1'', False))]
     [(exX_v1, exX_dom)] ex_instructors 5000 =
     Inr ([(exX_v1, (''T2'', ''R1'', ''I1'', False))], 0)"
  by code_simp

text \<open>An assignment whose lookups are pairwise apart is \<open>apart\<close>.\<close>

lemma apart_of_lookup:
  assumes "distinct (dict_keys d)"
      and "\<forall>v w c c'. dict_get d v = Some c \<and> dict_get d w = Some c' \<and> name v \<noteq> name w \<longrightarrow>
             room_pair c \<noteq> room_pair c' \<and> instr_pair c \<noteq> instr_pair c'"
  shows "apart d"
  unfolding apart_def
proof (intro ballI impI)
  fix e1 e2 assume m: "e1 \<in> set d" "e2 \<in> set d" and n: "name (fst e1) \<noteq> name (fst e2)"
  from m have "(fst e1, snd e1) \<in> set d" "(fst e2, snd e2) \<in> set d" by simp_all
  from dict_entry_get [OF assms(1) this(1)] dict_entry_get [OF assms(1) this(2)]
  have "dict_get d (fst e1) = Some (snd e1)" "dict_get d (fst e2) = Some (snd e2)" .
  with assms(2) n show "room_pair (snd e1) \<noteq> room_pair (snd e2) \<and>
      instr_pair (snd e1) \<noteq> instr_pair (snd e2)" by blast
qed

text \<open>
  Claim C9, as amended. For every assignment (a dict, so its keys have distinct names),
  every shuffle and every iteration budget, \<open>improve_assignments\<close> returns an assignment
  over the same keys in which at least as many sessions are qualified; a session whose
  tuple was qualified keeps it, and a session whose tuple changed now has a qualified
  tuple of its own domain. Sessions committed by the fallback are not set apart: the
  statement covers them like any other session. When no two sessions of the incoming
  assignment share a (timeslot, room) pair or a (timeslot, instructor) pair, none do in
  the result. Nothing is said of the double bookings in the result when the incoming
  assignment has some.
\<close>

theorem improve_monotone:
  assumes "is_shuffle shuffle" and "distinct (dict_keys asg)"
  shows "\<exists>asg' n. improve_assignments shuffle asg domains instructors max_iters = Inr (asg', n) \<and>
            qualified_count asg \<le> qualified_count asg' \<and>
            dict_keys asg' = dict_keys asg \<and>
            (\<forall>v c. dict_get asg v = Some c \<and> c_q c \<longrightarrow> dict_get asg' v = Some c) \<and>
            (\<forall>v c'. dict_get asg' v = Some c' \<longrightarrow>
               dict_get asg v = Some c' \<or> (c_q c' \<and> c' \<in> set (dict_get_or domains v []))) \<and>
            ((\<forall>v w c c'. dict_get asg v = Some c \<and> dict_get asg w = Some c' \<and>
                 name v \<noteq> name w \<longrightarrow>
                 room_pair c \<noteq> room_pair c' \<and> instr_pair c \<noteq> instr_pair c') \<longrightarrow>
             (\<forall>v w c c'. dict_get asg' v = Some c \<and> dict_get asg' w = Some c' \<and>
                 name v \<noteq> name w \<longrightarrow>
                 room_pair c \<noteq> room_pair c' \<and> instr_pair c \<noteq> instr_pair c'))"
proof -
  from improve_assignments_rel [OF assms(1), of asg domains instructors max_iters]
  obtain asg' n where
    r: "improve_assignments shuffle asg domains instructors max_iters = Inr (asg', n)"
    and k: "dict_keys asg' = dict_keys asg"
    and q: "qualified_count asg \<le> qualified_count asg'"
    and fr: "\<forall>w. name w \<notin> name ` set (unqualified_of asg) \<longrightarrow> dict_get asg' w = dict_get asg w"
    and ch: "\<forall>w c'. dict_get asg' w = Some c' \<longrightarrow>
               dict_get asg w = Some c' \<or> (c_q c' \<and> c' \<in> set (dict_get_or domains w []))"
    and ap: "distinct (dict_keys asg) \<and> apart asg \<longrightarrow> apart asg'"
    by blast
  have keep: "\<forall>v c. dict_get asg v = Some c \<and> c_q c \<longrightarrow> dict_get asg' v = Some c"
    using fr qualified_not_in_worklist [OF assms(2)] by metis
  have free: "(\<forall>v w c c'. dict_get asg v = Some c \<and> dict_get asg w = Some c' \<and>
                 name v \<noteq> name w \<longrightarrow>
                 room_pair c \<noteq> room_pair c' \<and> instr_pair c \<noteq> instr_pair c') \<longrightarrow>
             (\<forall>v w c c'. dict_get asg' v = Some c \<and> dict_get asg' w = Some c' \<and>
                 name v \<noteq> name w \<longrightarrow>
                 room_pair c \<noteq> room_pair c' \<and> instr_pair c \<noteq> instr_pair c')"
  proof
    assume "\<forall>v w c c'. dict_get asg v = Some c \<and> dict_get asg w = Some c' \<and>
                 name v \<noteq> name w \<longrightarrow>
                 room_pair c \<noteq> room_pair c' \<and> instr_pair c \<noteq> instr_pair c'"
    from apart_of_lookup [OF assms(2) this] ap assms(2) have "apart asg'" by simp
    then show "\<forall>v w c c'. dict_get asg' v = Some c \<and> dict_get asg' w = Some c' \<and>
                 name v \<noteq> name w \<longrightarrow>
                 room_pair c \<noteq> room_pair c' \<and> instr_pair c \<noteq> instr_pair c'"
      using apart_lookup by blast
  qed
  from r k q keep ch free show ?thesis by blast
qed

theorem improve_monotone_witness:
  "improve_assignments (\<lambda>xs. xs) ex3_asg ex3_domains ex2_instructors 5000 =
     Inr ([(ex2_vA, (''T1'', ''R1'', ''I1'', True)), (ex2_vB, (''T2'', ''R1'', ''I1'', True))], 2) \<and>
   qualified_count ex3_asg = 0 \<and>
   qualified_count [(ex2_vA, (''T1'', ''R1'', ''I1'', True)), (ex2_vB, (''T2'', ''R1'', ''I1'', True))] = 2 \<and>
   qualified_count ex3_asg \<le>
     qualified_count [(ex2_vA, (''T1'', ''R1'', ''I1'', True)), (ex2_vB, (''T2'', ''R1'', ''I1'', True))] \<and>
   dict_keys [(ex2_vA, (''T1'', ''R1'', ''I1'', True)), (ex2_vB, (''T2'', ''R1'', ''I1'', True))] =
     dict_keys ex3_asg \<and>
   (c_q (''T1'', ''R1'', ''I1'', True) \<and>
    (''T1'', ''R1'', ''I1'', True) \<in> set (dict_get_or ex3_domains ex2_vA [])) \<and>
   (c_q (''T2'', ''R1'', ''I1'', True) \<and>
    (''T2'', ''R1'', ''I1'', True) \<in> set (dict_get_or ex3_domains ex2_vB [])) \<and>
   (room_pair (''T1'', ''R1'', ''I1'', True) \<noteq> room_pair (''T2'', ''R1'', ''I1'', True) \<and>
    instr_pair (''T1'', ''R1'', ''I1'', True) \<noteq> instr_pair (''T2'', ''R1'', ''I1'', True))"
proof -
  let ?res = "[(ex2_vA, (''T1'', ''R1'', ''I1'', True)), (ex2_vB, (''T2'', ''R1'', ''I1'', True))]"
  have sh: "is_shuffle (\<lambda>xs. xs)"
    by (simp add: is_shuffle_def)
  have d: "distinct (dict_keys ex3_asg)"
    by code_simp
  have ev: "improve_assignments (\<lambda>xs. xs) ex3_asg ex3_domains ex2_instructors 5000 = Inr (?res, 2)"
    by code_simp
  have qc1: "qualified_count ex3_asg = 0"
    by code_simp
  have qc2: "qualified_count ?res = 2"
    by code_simp
  have ap: "apart ex3_asg"
    by code_simp
  then have free: "\<forall>v w c c'. dict_get ex3_asg v = Some c \<and> dict_get ex3_asg w = Some c' \<and>
                 name v \<noteq> name w \<longrightarrow>
                 room_pair c \<noteq> room_pair c' \<and> instr_pair c \<noteq> instr_pair c'"
    using apart_lookup by blast
  have n: "name ex2_vA \<noteq> name ex2_vB"
    by code_simp
  have g1: "dict_get ?res ex2_vA = Some (''T1'', ''R1'', ''I1'', True)"
    by code_simp
  have g2: "dict_get ?res ex2_vB = Some (''T2'', ''R1'', ''I1'', True)"
    by code_simp
  have g3: "dict_get ex3_asg ex2_vA \<noteq> Some (''T1'', ''R1'', ''I1'', True)"
    by code_simp
  have g4: "dict_get ex3_asg ex2_vB \<noteq> Some (''T2'', ''R1'', ''I1'', True)"
    by code_simp
  from improve_monotone [OF sh d, of ex3_domains ex2_instructors 5000]
  obtain asg' k where
    r: "improve_assignments (\<lambda>xs. xs) ex3_asg ex3_domains ex2_instructors 5000 = Inr (asg', k)"
    and q: "qualified_count ex3_asg \<le> qualified_count asg'"
    and ks: "dict_keys asg' = dict_keys ex3_asg"
    and ch: "\<forall>v c'. dict_get asg' v = Some c' \<longrightarrow>
               dict_get ex3_asg v = Some c' \<or> (c_q c' \<and> c' \<in> set (dict_get_or ex3_domains v []))"
    and fr: "(\<forall>v w c c'. dict_get ex3_asg v = Some c \<and> dict_get ex3_asg w = Some c' \<and>
                 name v \<noteq> name w \<longrightarrow>
                 room_pair c \<noteq> room_pair c' \<and> instr_pair c \<noteq> instr_pair c') \<longrightarrow>
             (\<forall>v w c c'. dict_get asg' v = Some c \<and> dict_get asg' w = Some c' \<and>
                 name v \<noteq> name w \<longrightarrow>
                 room_pair c \<noteq> room_pair c' \<and> instr_pair c \<noteq> instr_pair c')"
    by blast
  from r ev have a: "asg' = ?res" by simp
  note q' = q [unfolded a] and ks' = ks [unfolded a] and ch' = ch [unfolded a]
  from fr free have fr': "\<forall>v w c c'. dict_get ?res v = Some c \<and> dict_get ?res w = Some c' \<and>
                 name v \<noteq> name w \<longrightarrow>
                 room_pair c \<noteq> room_pair c' \<and> instr_pair c \<noteq> instr_pair c'"
    unfolding a by (rule mp)
  from ch' [rule_format, OF g1] g3 have c1: "c_q (''T1'', ''R1'', ''I1'', True) \<and>
      (''T1'', ''R1'', ''I1'', True) \<in> set (dict_get_or ex3_domains ex2_vA [])"
    by blast
  from ch' [rule_format, OF g2] g4 have c2: "c_q (''T2'', ''R1'', ''I1'', True) \<and>
      (''T2'', ''R1'', ''I1'', True) \<in> set (dict_get_or ex3_domains ex2_vB [])"
    by blast
  have c3: "room_pair (''T1'', ''R1'', ''I1'', True) \<noteq> room_pair (''T2'', ''R1'', ''I1'', True) \<and>
      instr_pair (''T1'', ''R1'', ''I1'', True) \<noteq> instr_pair (''T2'', ''R1'', ''I1'', True)"
    by (rule fr' [rule_format, of ex2_vA _ ex2_vB]) (intro conjI g1 g2 n)
  show ?thesis
    by (intro conjI ev qc1 qc2 q' ks' c1 [THEN conjunct1] c1 [THEN conjunct2]
        c2 [THEN conjunct1] c2 [THEN conjunct2] c3 [THEN conjunct1] c3 [THEN conjunct2])
qed

text \<open>
  The session \<open>CB\<close> below is committed by the fallback (no candidate is free, the
  violation count becomes 1) with the unqualified instructor \<open>I2\<close>; the improvement pass
  then moves it to the qualified instructor \<open>I3\<close>. On the assignment of four sessions,
  which has one double booking, the pass moves \<open>CA\<close> away and discards the pairs
  \<open>(T1, R1)\<close> and \<open>(T1, I1)\<close> that \<open>CB\<close> still holds (line 326), then moves one
  session of \<open>C1\<close> into the room of \<open>CB\<close> and the other to its instructor: the result
  has two double bookings.
\<close>

theorem improve_monotone_counterexample:
  "build_vars_domains ex2_courses ex2_instructors ex_lab_rooms [''T1''] ex_sections ex2_curriculum =
     ([ex2_vA, ex2_vB], ex2_domains) \<and>
   greedy_step ex2_domains greedy_init ex2_vA =
     \<lparr>assigned = [(ex2_vA, (''T1'', ''R1'', ''I1'', True))],
      used_room_ts = {(''T1'', ''R1'')}, used_instr_ts = {(''T1'', ''I1'')}, violations = 0\<rparr> \<and>
   first_free {(''T1'', ''R1'')} {(''T1'', ''I1'')}
     (filter (\<lambda>d. c_q d) (dict_get_or ex2_domains ex2_vB []) @
      filter (\<lambda>d. \<not> c_q d) (dict_get_or ex2_domains ex2_vB [])) = None \<and>
   greedy_assign [ex2_vA, ex2_vB] ex2_domains =
     ([(ex2_vA, (''T1'', ''R1'', ''I1'', True)), (ex2_vB, (''T1'', ''R1'', ''I2'', False))], 1) \<and>
   improve_assignments (\<lambda>xs. xs)
     [(ex2_vA, (''T1'', ''R1'', ''I1'', True)), (ex2_vB, (''T1'', ''R1'', ''I2'', False))]
     ex2_domains ex2_instructors 5000 =
     Inr ([(ex2_vA, (''T1'', ''R1'', ''I1'', True)), (ex2_vB, (''T1'', ''R1'', ''I3'', True))], 1) \<and>
   improve_assignments (\<lambda>xs. xs) ex4_asg ex4_domains ex2_instructors 5000 =
     Inr ([(ex_v 1, (''T1'', ''R5'', ''I1'', True)), (ex_v 0, (''T1'', ''R1'', ''I5'', True)),
           (ex2_vB, (''T1'', ''R1'', ''I1'', True)), (ex2_vA, (''T4'', ''R4'', ''I4'', True))], 3) \<and>
   double_bookings ex4_asg = 1 \<and>
   double_bookings [(ex_v 1, (''T1'', ''R5'', ''I1'', True)), (ex_v 0, (''T1'', ''R1'', ''I5'', True)),
           (ex2_vB, (''T1'', ''R1'', ''I1'', True)), (ex2_vA, (''T4'', ''R4'', ''I4'', True))] = 2"
  by code_simp

section \<open>Capacity and room type of committed tuples\<close>

lemma session_step_ok:
  assumes "stored_ok courses instructors rooms timeslots st"
  shows "stored_ok courses instructors rooms timeslots
           (session_step instructors rooms timeslots cid (course_type courses cid) s_id yr studs st i)"
proof -
  let ?v0 = "\<lparr>course = cid, sect = s_id, year = yr, idx = i, students = studs\<rparr>"
  let ?d0 = "build_dom instructors rooms timeslots cid (course_type courses cid) studs"
  have d0: "?d0 = dom_for courses instructors rooms timeslots ?v0"
    by (simp add: dom_for_def)
  have st': "session_step instructors rooms timeslots cid (course_type courses cid) s_id yr studs st i =
      (fst st @ [?v0], dict_set (snd st) ?v0 ?d0)"
    by (simp add: session_step_def Let_def)
  show ?thesis
    unfolding st' stored_ok_def fst_conv snd_conv
  proof
    fix v assume v: "v \<in> set (fst st @ [?v0])"
    show "\<exists>w\<in>set (fst st @ [?v0]). name w = name v \<and>
            dict_get (dict_set (snd st) ?v0 ?d0) v =
              Some (dom_for courses instructors rooms timeslots w)"
    proof (cases "name ?v0 = name v")
      case True
      then have "dict_get (dict_set (snd st) ?v0 ?d0) v = Some ?d0"
        by (simp add: dict_get_set)
      with True d0 show ?thesis by auto
    next
      case False
      with v have "v \<in> set (fst st)" by auto
      with assms obtain w where "w \<in> set (fst st)" "name w = name v"
          "dict_get (snd st) v = Some (dom_for courses instructors rooms timeslots w)"
        unfolding stored_ok_def by blast
      moreover from False have "dict_get (dict_set (snd st) ?v0 ?d0) v = dict_get (snd st) v"
        by (simp add: dict_get_set)
      ultimately show ?thesis by auto
    qed
  qed
qed

lemma session_loop_ok:
  "stored_ok courses instructors rooms timeslots st \<Longrightarrow>
   stored_ok courses instructors rooms timeslots
     (foldl (session_step instructors rooms timeslots cid (course_type courses cid) s_id yr studs) st xs)"
  by (induction xs arbitrary: st) (simp_all add: session_step_ok)

lemma course_step_ok:
  "stored_ok courses instructors rooms timeslots st \<Longrightarrow>
   stored_ok courses instructors rooms timeslots
     (course_step courses instructors rooms timeslots s_id yr studs st cid)"
  by (simp add: course_step_def Let_def session_loop_ok)

lemma course_loop_ok:
  "stored_ok courses instructors rooms timeslots st \<Longrightarrow>
   stored_ok courses instructors rooms timeslots
     (foldl (course_step courses instructors rooms timeslots s_id yr studs) st cl)"
  by (induction cl arbitrary: st) (simp_all add: course_step_ok)

lemma section_loop_ok:
  "stored_ok courses instructors rooms timeslots st \<Longrightarrow>
   stored_ok courses instructors rooms timeslots
     (foldl (section_step courses instructors rooms timeslots curriculum) st ss)"
  by (induction ss arbitrary: st) (simp_all add: section_step_def Let_def course_loop_ok)

lemma build_stored_ok:
  "stored_ok courses instructors rooms timeslots
     (build_vars_domains courses instructors rooms timeslots sections curriculum)"
  unfolding build_vars_domains_def
  by (rule section_loop_ok) (simp add: stored_ok_def)

lemma build_domain_of:
  assumes "build_vars_domains courses instructors rooms timeslots sections curriculum =
             (variables, domains)"
      and "inj_on name (set variables)" and "v \<in> set variables"
  shows "dict_get domains v = Some (dom_for courses instructors rooms timeslots v)"
proof -
  from build_stored_ok [of courses instructors rooms timeslots sections curriculum] assms(1,3)
  obtain w where w: "w \<in> set variables" "name w = name v"
    "dict_get domains v = Some (dom_for courses instructors rooms timeslots w)"
    unfolding stored_ok_def by auto
  from assms(2,3) w(1,2) have "w = v" by (simp add: inj_on_def)
  with w(3) show ?thesis by simp
qed

lemma build_dom_room:
  assumes "c \<in> set (build_dom instructors rooms timeslots cid ctp studs)"
  shows "\<exists>rinfo. (c_r c, rinfo) \<in> set rooms \<and> studs \<le> capacity rinfo \<and>
           compatible_room ctp (rtype rinfo)"
proof -
  obtain t r i q where c: "c = (t, r, i, q)" by (cases c) auto
  with assms have "(t, r, i, q) \<in> set (build_dom instructors rooms timeslots cid ctp studs)"
    by simp
  then obtain rinfo where "(r, rinfo) \<in> set rooms" "compatible_room ctp (rtype rinfo)"
      "studs \<le> capacity rinfo"
    unfolding set_build_dom by blast
  then show ?thesis by (auto simp: c c_r_def)
qed

lemma export_rows_filter:
  "filter (\<lambda>r. Variable r = n) (export_rows asg timeslot_info instructors) =
     map (export_row timeslot_info instructors) (filter (\<lambda>e. name (fst e) = n) asg)"
  by (induction asg) (simp_all add: export_rows_def export_row_def Let_def)

text \<open>
  Claim C2, as amended. Let the variables and domains be those \<open>build_vars_domains\<close>
  returns, with no two different variables sharing a name. For every variable whose
  domain is not empty, the tuple committed for it by \<open>greedy_assign\<close> (first fit or
  fallback) names a room of the rooms table whose capacity is at least the session's
  student count and whose type is compatible with the course's type, and so does the
  tuple it has after \<open>improve_assignments\<close>.
\<close>

theorem committed_room_safe:
  assumes b: "build_vars_domains courses instructors rooms timeslots sections curriculum =
                (variables, domains)"
      and inj: "inj_on name (set variables)"
      and g: "greedy_assign variables domains = (asg, viol)"
      and sh: "is_shuffle shuffle"
      and v: "v \<in> set variables"
      and ne: "dict_get_or domains v [] \<noteq> []"
  shows "(\<exists>c rinfo. dict_get asg v = Some c \<and> (c_r c, rinfo) \<in> set rooms \<and>
            students v \<le> capacity rinfo \<and>
            compatible_room (course_type courses (course v)) (rtype rinfo)) \<and>
         (\<exists>asg' n c' rinfo.
            improve_assignments shuffle asg domains instructors max_iters = Inr (asg', n) \<and>
            dict_get asg' v = Some c' \<and> (c_r c', rinfo) \<in> set rooms \<and>
            students v \<le> capacity rinfo \<and>
            compatible_room (course_type courses (course v)) (rtype rinfo))"
proof -
  let ?D = "build_dom instructors rooms timeslots (course v) (course_type courses (course v))
              (students v)"
  from build_domain_of [OF b inj v] have D: "dict_get_or domains v [] = ?D"
    by (simp add: dict_get_or_def dom_for_def)
  from greedy_assign_keys [OF g] have keys: "set (dict_keys asg) = name ` set variables"
    and fd: "from_domain domains asg" by simp_all
  from keys v have "name v \<in> set (dict_keys asg)" by auto
  then obtain c where c: "dict_get asg v = Some c"
    using dict_get_None_iff [of asg v] by auto
  with fd ne have cD: "c \<in> set ?D"
    unfolding from_domain_def D [symmetric] by blast
  from improve_assignments_rel [OF sh, of asg domains instructors max_iters]
  obtain asg' n where
    r: "improve_assignments shuffle asg domains instructors max_iters = Inr (asg', n)"
    and k: "dict_keys asg' = dict_keys asg"
    and ch: "\<forall>w c'. dict_get asg' w = Some c' \<longrightarrow>
               dict_get asg w = Some c' \<or> (c_q c' \<and> c' \<in> set (dict_get_or domains w []))"
    by blast
  from k \<open>name v \<in> set (dict_keys asg)\<close> obtain c' where c': "dict_get asg' v = Some c'"
    using dict_get_None_iff [of asg' v] by auto
  from ch c' have "dict_get asg v = Some c' \<or> c' \<in> set (dict_get_or domains v [])"
    by blast
  with c cD have c'D: "c' \<in> set ?D"
    unfolding D [symmetric] by auto
  from build_dom_room [OF cD] c build_dom_room [OF c'D] c' r show ?thesis
    by blast
qed

theorem committed_room_safe_witness:
  "(\<exists>c rinfo. dict_get [(ex_v 0, (''T1'', ''R1'', ''I1'', True)),
                        (ex_v 1, (''T1'', ''R1'', ''I1'', True))] (ex_v 1) = Some c \<and>
      (c_r c, rinfo) \<in> set ex_rooms \<and> students (ex_v 1) \<le> capacity rinfo \<and>
      compatible_room (course_type ex_courses (course (ex_v 1))) (rtype rinfo)) \<and>
   (\<exists>asg' n c' rinfo.
      improve_assignments (\<lambda>xs. xs)
        [(ex_v 0, (''T1'', ''R1'', ''I1'', True)), (ex_v 1, (''T1'', ''R1'', ''I1'', True))]
        ex_domains1 ex_instructors 5000 = Inr (asg', n) \<and>
      dict_get asg' (ex_v 1) = Some c' \<and> (c_r c', rinfo) \<in> set ex_rooms \<and>
      students (ex_v 1) \<le> capacity rinfo \<and>
      compatible_room (course_type ex_courses (course (ex_v 1))) (rtype rinfo))"
proof -
  have b: "build_vars_domains ex_courses ex_instructors ex_rooms [''T1''] ex_sections
             ex_curriculum = ([ex_v 0, ex_v 1], ex_domains1)"
    by code_simp
  have "name (ex_v 0) \<noteq> name (ex_v 1)"
    by code_simp
  then have inj: "inj_on name (set [ex_v 0, ex_v 1])"
    by (auto simp: inj_on_def)
  have g: "greedy_assign [ex_v 0, ex_v 1] ex_domains1 =
             ([(ex_v 0, (''T1'', ''R1'', ''I1'', True)), (ex_v 1, (''T1'', ''R1'', ''I1'', True))], 1)"
    by code_simp
  have sh: "is_shuffle (\<lambda>xs. xs)"
    by (simp add: is_shuffle_def)
  have v: "ex_v 1 \<in> set [ex_v 0, ex_v 1]"
    by simp
  have ne: "dict_get_or ex_domains1 (ex_v 1) [] \<noteq> []"
    by code_simp
  show ?thesis
    by (rule committed_room_safe [OF b inj g sh v ne])
qed

text \<open>
  For a session with an empty domain the committed tuple is the synthetic one: with the
  single room \<open>room0\<close> of capacity 5 and a section of 10 students the domain is empty and
  the session is put into \<open>room0\<close>.
\<close>

theorem committed_room_safe_counterexample:
  "build_vars_domains [''C9'' \<mapsto> \<lparr>cname = ''Seminar'', ctype = ''lab''\<rparr>] ex_instructors
     [(''room0'', \<lparr>rtype = ''lab'', capacity = 5\<rparr>)] [''T1''] ex_sections [1 \<mapsto> [''C9'']] =
     ([ex_v9], [(ex_v9, [])]) \<and>
   greedy_assign [ex_v9] [(ex_v9, [])] =
     ([(ex_v9, (''ts0'', ''room0'', ''instr0'', False))], 1) \<and>
   map_of [(''room0'', \<lparr>rtype = ''lab'', capacity = 5\<rparr>)] ''room0'' =
     Some \<lparr>rtype = ''lab'', capacity = 5\<rparr> \<and>
   \<not> students ex_v9 \<le> 5"
  by code_simp

section \<open>One row per session\<close>

text \<open>
  Claim C4 on the tables with the colliding names. Both sessions have non-empty domains
  of their own, yet \<open>domains\<close> has one item (the domain computed last, for 10 students),
  the assignment has one key, and the export has one row, for course \<open>A_B\<close> and section
  \<open>C\<close>: the session of course \<open>A\<close> and section \<open>B_C\<close> is in no row, and the 50 students
  of section \<open>C\<close> are put into room \<open>R1\<close> of capacity 20.
\<close>

theorem name_collision_drops_session:
  "build_vars_domains exX_courses ex_instructors exX_rooms [''T1'', ''T2''] exX_sections
     exX_curriculum = ([exX_v1, exX_v2], [(exX_v1, exX_dom)]) \<and>
   name exX_v1 = ''A_B_C_L0'' \<and> name exX_v2 = ''A_B_C_L0'' \<and>
   dom_for exX_courses ex_instructors exX_rooms [''T1'', ''T2''] exX_v1 =
     [(''T1'', ''R2'', ''I1'', False), (''T2'', ''R2'', ''I1'', False)] \<and>
   dom_for exX_courses ex_instructors exX_rooms [''T1'', ''T2''] exX_v2 = exX_dom \<and>
   greedy_assign [exX_v1, exX_v2] [(exX_v1, exX_dom)] =
     ([(exX_v1, (''T2'', ''R1'', ''I1'', False))], 0) \<and>
   export_rows [(exX_v1, (''T2'', ''R1'', ''I1'', False))] Map.empty ex_instructors =
     [\<lparr>Variable = ''A_B_C_L0'', Year = 1, Course = ''A_B'', Section = ''C'', TimeslotID = ''T2'',
       Day = [], Start = [], End = [], Room = ''R1'', InstructorID = ''I1'',
       InstructorName = ''Ann'', InstructorQualified = False\<rparr>]"
  by code_simp

text \<open>
  When no two different variables share a name and every domain is non-empty, the keys
  of the assignment are exactly the variables, each once; every variable is mapped to a
  tuple of the domain computed for it, and exactly one exported row carries its name,
  the row built from the variable and that tuple.
\<close>

theorem unique_names_total:
  assumes b: "build_vars_domains courses instructors rooms timeslots sections curriculum =
                (variables, domains)"
      and inj: "inj_on name (set variables)"
      and ne: "\<forall>v\<in>set variables. dict_get_or domains v [] \<noteq> []"
      and g: "greedy_assign variables domains = (asg, viol)"
  shows "fst ` set asg = set variables \<and> distinct (map fst asg) \<and>
         (\<forall>v\<in>set variables. \<exists>c. dict_get asg v = Some c \<and>
            c \<in> set (build_dom instructors rooms timeslots (course v)
                        (course_type courses (course v)) (students v)) \<and>
            filter (\<lambda>r. Variable r = name v) (export_rows asg timeslot_info instructors) =
              [export_row timeslot_info instructors (v, c)])"
proof -
  from greedy_assign_keys [OF g] have keys: "set (dict_keys asg) = name ` set variables"
    and dis: "distinct (dict_keys asg)" and fd: "from_domain domains asg" by simp_all
  from greedy_assign_key_objects [OF g] have sub: "fst ` set asg \<subseteq> set variables" .
  have entry: "\<exists>c. (v, c) \<in> set asg" if v: "v \<in> set variables" for v
  proof -
    from keys v have "name v \<in> set (dict_keys asg)" by auto
    then obtain k c where kc: "(k, c) \<in> set asg" and n: "name k = name v"
      by (auto simp: dict_keys_def)
    from kc sub have "k \<in> set variables" by force
    with inj v n have "k = v" by (simp add: inj_on_def)
    with kc show ?thesis by blast
  qed
  have "fst ` set asg = set variables"
  proof
    show "fst ` set asg \<subseteq> set variables" by (rule sub)
    show "set variables \<subseteq> fst ` set asg"
    proof
      fix v assume "v \<in> set variables"
      from entry [OF this] show "v \<in> fst ` set asg" by force
    qed
  qed
  moreover have "distinct (map fst asg)"
  proof -
    have "dict_keys asg = map name (map fst asg)" by (simp add: dict_keys_def)
    with dis have "distinct (map name (map fst asg))" by simp
    then show ?thesis using distinct_map [of name "map fst asg"] by blast
  qed
  moreover have "\<exists>c. dict_get asg v = Some c \<and>
            c \<in> set (build_dom instructors rooms timeslots (course v)
                        (course_type courses (course v)) (students v)) \<and>
            filter (\<lambda>r. Variable r = name v) (export_rows asg timeslot_info instructors) =
              [export_row timeslot_info instructors (v, c)]"
    if v: "v \<in> set variables" for v
  proof -
    from entry [OF v] obtain c where m: "(v, c) \<in> set asg" by blast
    from dict_entry_get [OF dis m] have get: "dict_get asg v = Some c" .
    from build_domain_of [OF b inj v] have D: "dict_get_or domains v [] =
        build_dom instructors rooms timeslots (course v) (course_type courses (course v)) (students v)"
      by (simp add: dict_get_or_def dom_for_def)
    from ne v have "dict_get_or domains v [] \<noteq> []" by simp
    with fd get have "c \<in> set (dict_get_or domains v [])"
      unfolding from_domain_def by blast
    with D have cD: "c \<in> set (build_dom instructors rooms timeslots (course v)
                        (course_type courses (course v)) (students v))" by simp
    have "filter (\<lambda>r. Variable r = name v) (export_rows asg timeslot_info instructors) =
              [export_row timeslot_info instructors (v, c)]"
      by (simp add: export_rows_filter dict_filter_key [OF dis m])
    with get cD show ?thesis by blast
  qed
  ultimately show ?thesis by blast
qed

theorem unique_names_total_witness:
  "fst ` set ex_asg = set [ex_v 0, ex_v 1] \<and> distinct (map fst ex_asg)"
proof -
  have b: "build_vars_domains ex_courses ex_instructors ex_rooms [''T1'', ''T2''] ex_sections
             ex_curriculum = ([ex_v 0, ex_v 1], ex_domains)"
    by code_simp
  have "name (ex_v 0) \<noteq> name (ex_v 1)"
    by code_simp
  then have inj: "inj_on name (set [ex_v 0, ex_v 1])"
    by (auto simp: inj_on_def)
  have ne: "\<forall>v\<in>set [ex_v 0, ex_v 1]. dict_get_or ex_domains v [] \<noteq> []"
    by code_simp
  have g: "greedy_assign [ex_v 0, ex_v 1] ex_domains = (ex_asg, 0)"
    by code_simp
  from unique_names_total [OF b inj ne g] show ?thesis
    by blast
qed

section \<open>Courses missing from the courses table\<close>

text \<open>
  When no two different variables share a name, every curriculum entry of a course that
  is not in the courses table has its session of index 0 among the variables, no session
  of that course has another index, and the domain stored for the session is filtered by
  capacity alone.
\<close>

lemma sessions_of_missing:
  "courses cid = None \<Longrightarrow>
     sessions_of courses s cid =
       [\<lparr>course = cid, sect = section_id s, year = sec_year s, idx = 0, students = sec_students s\<rparr>]"
  by (simp add: sessions_of_def course_type_def)

lemma missing_course_unique_names:
  assumes b: "build_vars_domains courses instructors rooms timeslots sections curriculum =
                (variables, domains)"
      and inj: "inj_on name (set variables)"
      and s: "s \<in> set sections" and cl: "curriculum (sec_year s) = Some cl" and c: "cid \<in> set cl"
      and m: "courses cid = None"
  shows "\<lparr>course = cid, sect = section_id s, year = sec_year s, idx = 0,
           students = sec_students s\<rparr> \<in> set variables \<and>
         (\<forall>v\<in>set variables. course v = cid \<longrightarrow> idx v = 0) \<and>
         dict_get domains
           \<lparr>course = cid, sect = section_id s, year = sec_year s, idx = 0,
             students = sec_students s\<rparr> =
           Some [(t, r, instr, is_qual instructors instr cid).
                   t \<leftarrow> timeslots, (r, rinfo) \<leftarrow> rooms, sec_students s \<le> capacity rinfo,
                   instr \<leftarrow> map fst instructors]"
proof -
  let ?v = "\<lparr>course = cid, sect = section_id s, year = sec_year s, idx = 0,
             students = sec_students s\<rparr>"
  have vs: "variables = concat (map (\<lambda>s. concat (map (sessions_of courses s)
        (case curriculum (sec_year s) of None \<Rightarrow> [] | Some l \<Rightarrow> l))) sections)"
    using build_vars_eq [of courses instructors rooms timeslots sections curriculum] b by simp
  have v: "?v \<in> set variables"
    unfolding vs using s cl c m sessions_of_missing [of courses cid s]
    by (auto intro!: bexI [of _ s] bexI [of _ cid])
  have i0: "\<forall>v\<in>set variables. course v = cid \<longrightarrow> idx v = 0"
    unfolding vs using m by (auto simp: sessions_of_def course_type_def)
  from build_domain_of [OF b inj v] have "dict_get domains ?v =
      Some (build_dom instructors rooms timeslots cid [] (sec_students s))"
    using m by (simp add: dom_for_def course_type_def)
  with v i0 show ?thesis
    by (simp only: build_dom_empty_type)
qed

text \<open>
  Claim C10 on tables with colliding names. Course \<open>A_B\<close> is in the curriculum but not in
  the courses table, so its type is the empty string and its session for section \<open>C\<close> is
  built with the domain of both rooms. The session of the lab course \<open>A\<close> for section
  \<open>B_C\<close> has the same name and its domain, which the room type has filtered down to the
  lab room, replaces the first: the domain that \<open>build_vars_domains\<close> returns for the
  session of the missing course lacks the project room \<open>R1\<close>, whose capacity is sufficient.
\<close>

theorem missing_course_domain_overwritten:
  "exY_courses ''A_B'' = None \<and>
   course_type exY_courses ''A_B'' = [] \<and>
   build_vars_domains exY_courses ex_instructors exY_rooms [''T1''] exY_sections exX_curriculum =
     ([exY_v1, exY_v2], [(exY_v1, [(''T1'', ''R2'', ''I1'', False)])]) \<and>
   name exY_v1 = ''A_B_C_L0'' \<and> name exY_v2 = ''A_B_C_L0'' \<and>
   [(t, r, instr, is_qual ex_instructors instr ''A_B'').
      t \<leftarrow> [''T1''], (r, rinfo) \<leftarrow> exY_rooms, students exY_v1 \<le> capacity rinfo,
      instr \<leftarrow> map fst ex_instructors] =
     [(''T1'', ''R1'', ''I1'', False), (''T1'', ''R2'', ''I1'', False)] \<and>
   dict_get_or (snd (build_vars_domains exY_courses ex_instructors exY_rooms [''T1''] exY_sections
                       exX_curriculum)) exY_v1 [] = [(''T1'', ''R2'', ''I1'', False)]"
  by code_simp

end
